theory Spec2Isabelle
  imports
    Complex_Main
    "HOL-Library.AList"
    "HOL-Library.Sublist"
    "HOL-Library.Char_ord"
    "HOL-Library.List_Lexorder"
begin

section \<open>Python values, strings and exceptions\<close>

text \<open>
  The harness of \<^verbatim>\<open>script.py\<close> drives plugin code it does not know. A plugin is
  modelled by what the harness can observe of it: what a constructor call gives, what the
  capability attributes hold, and how the conversion coroutine ends. Strings are ASCII text.

  Only exceptions derived from \<^verbatim>\<open>Exception\<close> are modelled; an exception value records
  which \<^verbatim>\<open>except\<close> clause of the harness it matches, the name of its type and its
  message (\<^verbatim>\<open>str(e)\<close>).
\<close>

datatype exc_class = TypeError | ValueError | TimeoutError | OtherException

record py_exception =
  exc_class :: exc_class
  type_name :: string
  message :: string

text \<open>\<^verbatim>\<open>str.lower\<close> on ASCII text.\<close>

definition lower_char :: "char \<Rightarrow> char" where
  "lower_char c =
     (case map_of (zip ''ABCDEFGHIJKLMNOPQRSTUVWXYZ'' ''abcdefghijklmnopqrstuvwxyz'') c of
        Some d \<Rightarrow> d
      | None \<Rightarrow> c)"

definition lower :: "string \<Rightarrow> string" where
  "lower s = map lower_char s"

text \<open>\<^verbatim>\<open>str.upper\<close> on ASCII text.\<close>

definition upper_char :: "char \<Rightarrow> char" where
  "upper_char c =
     (case map_of (zip ''abcdefghijklmnopqrstuvwxyz'' ''ABCDEFGHIJKLMNOPQRSTUVWXYZ'') c of
        Some d \<Rightarrow> d
      | None \<Rightarrow> c)"

definition upper :: "string \<Rightarrow> string" where
  "upper s = map upper_char s"

text \<open>The substring test \<^verbatim>\<open>sub in s\<close>.\<close>

fun str_in :: "string \<Rightarrow> string \<Rightarrow> bool" where
  "str_in sub [] = (sub = [])"
| "str_in sub (c # cs) = (prefix sub (c # cs) \<or> str_in sub cs)"

text \<open>Keyword arguments of a constructor call: a dictionary literal, in the order written.\<close>

datatype py_value = PyNone | PyBool bool | PyInt int | PyStr string

type_synonym params = "(string \<times> py_value) list"

section \<open>Awaiting a coroutine\<close>

text \<open>
  How a coroutine behaves under the event loop of \<^verbatim>\<open>asyncio\<close>. \<open>Completes d r oc\<close>
  yields to the event loop and ends after the time \<open>d\<close> with \<open>r\<close>; \<open>Never oc\<close> yields
  and stays pending; \<open>Blocks d r\<close> keeps the event loop for the time \<open>d\<close> and then ends
  with \<open>r\<close>. A pending coroutine that is cancelled ends at once (\<open>Stops\<close>), raises an
  exception of its own (\<open>Raises e\<close>), or goes on for the time \<open>d\<close> and ends with \<open>r\<close>
  (\<open>GoesOn d r\<close>). A coroutine that keeps the event loop for ever is not modelled: the
  harness does not return then.

  \<^verbatim>\<open>asyncio.wait_for(aw, timeout)\<close> cancels a coroutine that is pending at the timeout
  and raises \<^verbatim>\<open>asyncio.TimeoutError\<close> when the coroutine ends by the cancellation; it
  gives what the coroutine itself ends with otherwise. Its timer cannot fire while the
  coroutine keeps the event loop. The second component is the time the caller has waited.
  For a coroutine that ends at the very instant of the timeout the outcome depends on the
  order of two callbacks of the event loop; the definition gives that instant to the
  coroutine, and no theorem below is about it.
  A plain \<^verbatim>\<open>await\<close> has no deadline and does not return for a coroutine that stays
  pending.
\<close>

datatype 'a on_cancel = Stops | Raises py_exception | GoesOn real "py_exception + 'a"

datatype 'a awaitable =
    Completes real "py_exception + 'a" "'a on_cancel"
  | Never "'a on_cancel"
  | Blocks real "py_exception + 'a"

definition timeout_error :: py_exception where
  "timeout_error = \<lparr>exc_class = TimeoutError, type_name = ''TimeoutError'', message = ''''\<rparr>"

definition cancelled :: "'a on_cancel \<Rightarrow> real \<Rightarrow> (py_exception + 'a) \<times> real" where
  "cancelled oc timeout =
     (case oc of
        Stops \<Rightarrow> (Inl timeout_error, timeout)
      | Raises e \<Rightarrow> (Inl e, timeout)
      | GoesOn d r \<Rightarrow> (r, timeout + d))"

definition wait_for :: "'a awaitable \<Rightarrow> real \<Rightarrow> (py_exception + 'a) \<times> real" where
  "wait_for aw timeout =
     (case aw of
        Blocks d r \<Rightarrow> (r, d)
      | Completes d r oc \<Rightarrow> if d \<le> timeout then (r, d) else cancelled oc timeout
      | Never oc \<Rightarrow> cancelled oc timeout)"

definition await :: "'a awaitable \<Rightarrow> (py_exception + 'a) option" where
  "await aw =
     (case aw of
        Never oc \<Rightarrow> None
      | Completes d r oc \<Rightarrow> Some r
      | Blocks d r \<Rightarrow> Some r)"

section \<open>The plugins as the harness sees them\<close>

record converter_result =
  output_text :: string
  output_type :: string

text \<open>
  The value of a capability attribute: a tuple or a list of kinds, or another container of
  kinds whose subscript \<^verbatim>\<open>[0]\<close> raises the given exception (a set raises a
  \<^verbatim>\<open>TypeError\<close>).
\<close>

datatype capabilities = Sequence "string list" | Unindexable "string list" py_exception

fun kinds :: "capabilities \<Rightarrow> string list" where
  "kinds (Sequence xs) = xs"
| "kinds (Unindexable xs e) = xs"


text \<open>\<^verbatim>\<open>caps[0] if caps else 'unknown'\<close>; a container is true when it is not empty.\<close>

fun first_or_unknown :: "capabilities \<Rightarrow> py_exception + string" where
  "first_or_unknown (Sequence []) = Inr ''unknown''"
| "first_or_unknown (Sequence (x # xs)) = Inr x"
| "first_or_unknown (Unindexable xs e) = (if xs = [] then Inr ''unknown'' else Inl e)"

text \<open>
  \<open>'c\<close> stands for converter classes and \<open>'i\<close> for converter instances.
  \<open>construct\<close> is the call \<^verbatim>\<open>converter_class(**params)\<close>,
  \<open>supported_input_types\<close> and \<open>supported_output_types\<close> are the reads
  \<^verbatim>\<open>getattr(instance, 'SUPPORTED_INPUT_TYPES', ())\<close> and its sibling,
  \<open>convert_async\<close> is the call \<^verbatim>\<open>instance.convert_async(prompt=..., input_type=...)\<close>,
  and \<open>import_module\<close> is the import of \<^verbatim>\<open>prompt_converter.<module_name>\<close> followed by
  \<^verbatim>\<open>inspect.getmembers(module, inspect.isclass)\<close>. The plugins are taken to be
  deterministic and without effect on one another: each field is a function of its
  arguments.
\<close>

record ('c, 'i) plugins =
  construct :: "'c \<Rightarrow> params \<Rightarrow> py_exception + 'i"
  supported_input_types :: "'i \<Rightarrow> capabilities"
  supported_output_types :: "'i \<Rightarrow> capabilities"
  convert_async :: "'i \<Rightarrow> string \<Rightarrow> string \<Rightarrow> converter_result awaitable"
  import_module :: "string \<Rightarrow> py_exception + (string \<times> 'c) list"

section \<open>The instantiation prober\<close>

definition patterns :: "params list" where
  "patterns =
    [ [],
      [(''append_description'', PyBool False)],
      [(''caesar_offset'', PyInt 13)],
      [(''caesar_offset'', PyInt 13), (''append_description'', PyBool False)],
      [(''font'', PyStr ''block'')],
      [(''font'', PyStr ''rand'')],
      [(''encoding_func'', PyStr ''b64encode'')],
      [(''encoding_name'', PyStr ''cipher'')],
      [(''bits_per_char'', PyInt 8)],
      [(''shift_value'', PyInt 0)],
      [(''template'', PyNone)],
      [(''output_format'', PyStr ''wav'')],
      [(''synthesis_language'', PyStr ''en-US'')],
      [(''recognition_language'', PyStr ''en-US'')],
      [(''img_to_add'', PyStr '''')],
      [(''video_path'', PyStr '''')],
      [(''text_to_add'', PyStr ''test'')],
      [(''word_selection_strategy'', PyNone)],
      [(''word_split_separator'', PyStr '' '')],
      [(''converter_target'', PyNone)],
      [(''prompt_target'', PyNone)] ]"

text \<open>
  The \<^verbatim>\<open>except\<close> clauses of the probing loop: \<open>True\<close> when the clause ends in
  \<^verbatim>\<open>break\<close>, \<open>False\<close> when the loop goes on with the next pattern (by
  \<^verbatim>\<open>continue\<close>, or by falling out of the last clause).
\<close>

definition except_breaks :: "py_exception \<Rightarrow> bool" where
  "except_breaks e =
     (if exc_class e = TypeError then False
      else if exc_class e = ValueError then
        (let error_str = lower (message e) in
         if str_in ''required'' error_str \<or> str_in ''empty'' error_str
            \<or> str_in ''valid'' error_str
         then False else True)
      else
        (let error_str = lower (message e) in
         if \<not> str_in ''required'' error_str \<and> \<not> str_in ''missing'' error_str
         then True else False))"

text \<open>
  The loop over the patterns. The second component is the list of the patterns with which
  the constructor was called, in the order of the calls.
\<close>

fun try_patterns ::
  "('c, 'i) plugins \<Rightarrow> 'c \<Rightarrow> params list \<Rightarrow> 'i option \<times> params list" where
  "try_patterns E converter_class [] = (None, [])"
| "try_patterns E converter_class (ps # rest) =
     (case construct E converter_class ps of
        Inr inst \<Rightarrow> (Some inst, [ps])
      | Inl e \<Rightarrow>
          if except_breaks e then (None, [ps])
          else (case try_patterns E converter_class rest of
                  (r, tried) \<Rightarrow> (r, ps # tried)))"

definition try_instantiate :: "('c, 'i) plugins \<Rightarrow> 'c \<Rightarrow> 'i option \<times> params list" where
  "try_instantiate E converter_class = try_patterns E converter_class patterns"

section \<open>The classification ledger and the execution harness\<close>

record 'i working_entry =
  inst :: 'i
  inputs :: capabilities
  outputs :: capabilities
  is_text_to_text :: bool

text \<open>
  The three dictionaries of \<^verbatim>\<open>ConverterDiscovery\<close>. The text-to-text dictionary is kept
  as an association list, since the batch processor iterates over it in insertion order;
  assigning to a key that is present replaces its value in place, assigning to a new key
  appends. \<open>probe_calls\<close> is not a field of the class: it logs, in order, the names of
  the classes whose \<^verbatim>\<open>convert_async\<close> the harness has called, each with the time the
  harness then waited for the conversion.
\<close>

record 'i discovery =
  working_converters :: "string \<rightharpoonup> 'i working_entry"
  failed_converters :: "string \<rightharpoonup> string"
  text_to_text_converters :: "(string \<times> 'i) list"
  probe_calls :: "(string \<times> real) list"

definition new_discovery :: "'i discovery" where
  "new_discovery =
     \<lparr>working_converters = Map.empty, failed_converters = Map.empty,
      text_to_text_converters = [], probe_calls = []\<rparr>"

text \<open>The two assignments made for a plugin that counts as working.\<close>

definition mark_working ::
  "string \<Rightarrow> 'i \<Rightarrow> capabilities \<Rightarrow> capabilities \<Rightarrow> 'i discovery \<Rightarrow> 'i discovery" where
  "mark_working class_name converter_instance supported_inputs supported_outputs D =
     (let is_t2t = (''text'' \<in> set (kinds supported_inputs)
                    \<and> ''text'' \<in> set (kinds supported_outputs)) in
      D\<lparr>working_converters := (working_converters D)(class_name \<mapsto>
           \<lparr>inst = converter_instance, inputs = supported_inputs,
            outputs = supported_outputs, is_text_to_text = is_t2t\<rparr>),
        text_to_text_converters :=
          (if is_t2t then AList.update class_name converter_instance (text_to_text_converters D)
           else text_to_text_converters D)\<rparr>)"

text \<open>
  The reason written by the two \<^verbatim>\<open>except\<close> clauses that follow the conversion test:
  the inner one takes an \<^verbatim>\<open>asyncio.TimeoutError\<close>, the outer one every other exception.
  From Python 3.11 on \<^verbatim>\<open>asyncio.TimeoutError\<close> is the built-in \<^verbatim>\<open>TimeoutError\<close>, so
  a \<^verbatim>\<open>TimeoutError\<close> raised by the conversion itself is taken by the inner clause too.
\<close>

definition failure_reason :: "py_exception \<Rightarrow> string" where
  "failure_reason e =
     (if exc_class e = TimeoutError
      then ''Conversion test timeout (likely interactive converter)''
      else ''Testing failed: '' @ type_name e @ '': '' @ message e)"

text \<open>
  After a conversion test that returned, the plugin is written to the ledger first; for a
  plugin that is not text-to-text the first kind of each capability attribute is then read
  for the log line, and an exception of that read is handled like one of the conversion.
\<close>

definition test_converter_class ::
  "('c, 'i) plugins \<Rightarrow> string \<Rightarrow> 'c \<Rightarrow> 'i discovery \<Rightarrow> 'i discovery" where
  "test_converter_class E class_name converter_class D =
     (case fst (try_instantiate E converter_class) of
        None \<Rightarrow>
          D\<lparr>failed_converters := (failed_converters D)(class_name \<mapsto>
               ''Could not instantiate with any known parameters'')\<rparr>
      | Some converter_instance \<Rightarrow>
          (let supported_inputs = supported_input_types E converter_instance;
               supported_outputs = supported_output_types E converter_instance;
               is_t2t = (''text'' \<in> set (kinds supported_inputs)
                         \<and> ''text'' \<in> set (kinds supported_outputs))
           in if class_name = ''HumanInTheLoopConverter''
              then mark_working class_name converter_instance supported_inputs
                     supported_outputs D
              else
                (case wait_for (convert_async E converter_instance ''test'' ''text'') 5 of
                   (outcome, waited) \<Rightarrow>
                     (let D1 = D\<lparr>probe_calls := probe_calls D @ [(class_name, waited)]\<rparr> in
                      case outcome of
                        Inl e \<Rightarrow>
                          D1\<lparr>failed_converters :=
                               (failed_converters D1)(class_name \<mapsto> failure_reason e)\<rparr>
                      | Inr test_result \<Rightarrow>
                          (let D2 = mark_working class_name converter_instance
                                      supported_inputs supported_outputs D1
                           in if is_t2t then D2
                              else
                                (case first_or_unknown supported_inputs of
                                   Inl e \<Rightarrow>
                                     D2\<lparr>failed_converters :=
                                          (failed_converters D2)(class_name \<mapsto>
                                             failure_reason e)\<rparr>
                                 | Inr input_t \<Rightarrow>
                                     (case first_or_unknown supported_outputs of
                                        Inl e \<Rightarrow>
                                          D2\<lparr>failed_converters :=
                                               (failed_converters D2)(class_name \<mapsto>
                                                  failure_reason e)\<rparr>
                                      | Inr output_t \<Rightarrow> D2)))))))"

section \<open>The plugin registry\<close>

definition is_converter_class_name :: "string \<Rightarrow> bool" where
  "is_converter_class_name name = (suffix ''Converter'' name \<and> \<not> prefix ''_'' name)"

fun test_converter_classes ::
  "('c, 'i) plugins \<Rightarrow> (string \<times> 'c) list \<Rightarrow> 'i discovery \<Rightarrow> 'i discovery" where
  "test_converter_classes E [] D = D"
| "test_converter_classes E ((class_name, converter_class) # rest) D =
     test_converter_classes E rest (test_converter_class E class_name converter_class D)"

definition test_converter_module ::
  "('c, 'i) plugins \<Rightarrow> string \<Rightarrow> 'i discovery \<Rightarrow> 'i discovery" where
  "test_converter_module E module_name D =
     (case import_module E module_name of
        Inr members \<Rightarrow>
          test_converter_classes E
            (filter (\<lambda>(name, obj). is_converter_class_name name) members) D
      | Inl e \<Rightarrow>
          D\<lparr>failed_converters := (failed_converters D)(module_name \<mapsto>
               ''Import failed: '' @ type_name e @ '': '' @ message e)\<rparr>)"

fun test_converter_modules ::
  "('c, 'i) plugins \<Rightarrow> string list \<Rightarrow> 'i discovery \<Rightarrow> 'i discovery" where
  "test_converter_modules E [] D = D"
| "test_converter_modules E (module_name # rest) D =
     test_converter_modules E rest (test_converter_module E module_name D)"

text \<open>
  The directory \<^verbatim>\<open>prompt_converter\<close> is given by the names of its files, \<open>None\<close> when
  it does not exist. \<^verbatim>\<open>glob("*_converter.py")\<close> keeps the names with that ending, the
  paths are sorted, and the stem of each (the name without \<^verbatim>\<open>.py\<close>) is the module name.
\<close>

definition converter_files :: "string list \<Rightarrow> string list" where
  "converter_files listing = filter (suffix ''_converter.py'') listing"

definition stem :: "string \<Rightarrow> string" where
  "stem file_name = take (length file_name - 3) file_name"

definition discover_and_test_converters ::
  "('c, 'i) plugins \<Rightarrow> string list option \<Rightarrow> 'i discovery \<Rightarrow> 'i discovery" where
  "discover_and_test_converters E converter_dir D =
     (case converter_dir of
        None \<Rightarrow> D
      | Some listing \<Rightarrow>
          test_converter_modules E (map stem (sort (converter_files listing))) D)"

section \<open>The batch processor\<close>

text \<open>
  A table as \<^verbatim>\<open>pandas\<close> reads it from a file: column names, and rows of cells under the
  default index \<open>0, 1, ...\<close>, so that the label of a row is its position. A cell is null
  (\<open>NaN\<close>) or holds a value, kept as its text.
\<close>

datatype cell = NaN | Str string

record dataframe =
  columns :: "string list"
  rows :: "cell list list"

definition rectangular :: "dataframe \<Rightarrow> bool" where
  "rectangular df =
     (distinct (columns df) \<and> list_all (\<lambda>r. length r = length (columns df)) (rows df))"

definition isna :: "cell \<Rightarrow> bool" where
  "isna c = (c = NaN)"

definition str_of :: "cell \<Rightarrow> string" where
  "str_of c = (case c of Str s \<Rightarrow> s | NaN \<Rightarrow> ''nan'')"

text \<open>
  \<^verbatim>\<open>str.isspace\<close> on the characters of the model, which are the code points below 256,
  and \<^verbatim>\<open>str.strip()\<close>, which removes these characters from both ends.
\<close>

definition isspace :: "char \<Rightarrow> bool" where
  "isspace c =
     (c \<in> set [CHR 0x09, CHR 0x0A, CHR 0x0B, CHR 0x0C, CHR 0x0D,
               CHR 0x1C, CHR 0x1D, CHR 0x1E, CHR 0x1F, CHR 0x20, CHR 0x85, CHR 0xA0])"

definition strip :: "string \<Rightarrow> string" where
  "strip s = rev (dropWhile isspace (rev (dropWhile isspace s)))"

fun col_index :: "string \<Rightarrow> string list \<Rightarrow> nat" where
  "col_index col [] = 0"
| "col_index col (c # cs) = (if c = col then 0 else Suc (col_index col cs))"

text \<open>
  \<^verbatim>\<open>df.iloc[idx][col]\<close>; the loop reads it only for a row position below the number of
  rows and for the prompt column, which has been checked to be present.
\<close>

definition cell_at :: "dataframe \<Rightarrow> nat \<Rightarrow> string \<Rightarrow> cell" where
  "cell_at df idx col = (rows df ! idx) ! col_index col (columns df)"

text \<open>
  \<^verbatim>\<open>results.loc[idx, col] = v\<close>: a column that is not there yet is appended, null in
  every row; a row label that is not there yet appends one row, null outside \<open>col\<close>.
\<close>

definition loc_set :: "dataframe \<Rightarrow> nat \<Rightarrow> string \<Rightarrow> cell \<Rightarrow> dataframe" where
  "loc_set df idx col v =
     (let df1 = (if col \<in> set (columns df) then df
                 else \<lparr>columns = columns df @ [col],
                       rows = map (\<lambda>r. r @ [NaN]) (rows df)\<rparr>);
          k = col_index col (columns df1)
      in if idx < length (rows df1)
         then df1\<lparr>rows := (rows df1)[idx := (rows df1 ! idx)[k := v]]\<rparr>
         else df1\<lparr>rows := rows df1 @ [(replicate (length (columns df1)) NaN)[k := v]]\<rparr>)"

text \<open>\<^verbatim>\<open>df.head(n)\<close>: the first \<open>n\<close> rows, and all but the last \<open>-n\<close> for negative \<open>n\<close>.\<close>

definition head :: "dataframe \<Rightarrow> int \<Rightarrow> dataframe" where
  "head df n =
     df\<lparr>rows := (if 0 \<le> n then take (nat n) (rows df)
                  else take (length (rows df) - nat (- n)) (rows df))\<rparr>"

text \<open>
  The state of the loops of \<^verbatim>\<open>process_excel\<close>: the table \<^verbatim>\<open>results\<close>, and a log, in
  order, of the calls of \<^verbatim>\<open>convert_async\<close> as pairs of row position and plugin name.
  The conversion is awaited with no deadline, so the run does not return (\<open>None\<close>) when
  a conversion never completes. The text of a result is a string, as the result type of
  the plugins declares it.
\<close>

type_synonym batch_state = "dataframe \<times> (nat \<times> string) list"

fun run_converters ::
  "('c, 'i) plugins \<Rightarrow> (string \<times> 'i) list \<Rightarrow> nat \<Rightarrow> string \<Rightarrow> batch_state
     \<Rightarrow> batch_state option" where
  "run_converters E [] idx prompt st = Some st"
| "run_converters E ((converter_name, converter) # rest) idx prompt (results, calls) =
     (case await (convert_async E converter prompt ''text'') of
        None \<Rightarrow> None
      | Some (Inr result) \<Rightarrow>
          run_converters E rest idx prompt
            (loc_set results idx (converter_name @ ''_output'') (Str (output_text result)),
             calls @ [(idx, converter_name)])
      | Some (Inl e) \<Rightarrow>
          run_converters E rest idx prompt
            (loc_set results idx (converter_name @ ''_output'') (Str (''ERROR: '' @ message e)),
             calls @ [(idx, converter_name)]))"

text \<open>The names of the columns that the converters write to, in the order of the ledger.\<close>

definition output_columns :: "(string \<times> 'i) list \<Rightarrow> string list" where
  "output_columns cs = map (\<lambda>(converter_name, converter). converter_name @ ''_output'') cs"

text \<open>
  The cell that the inner loop writes for a converter and a prompt: the text of the result,
  or the error marker when the conversion raises; \<open>None\<close> when the conversion does not
  return.
\<close>

definition written_cell :: "('c, 'i) plugins \<Rightarrow> 'i \<Rightarrow> string \<Rightarrow> cell option" where
  "written_cell E converter prompt =
     (case await (convert_async E converter prompt ''text'') of
        None \<Rightarrow> None
      | Some (Inr result) \<Rightarrow> Some (Str (output_text result))
      | Some (Inl e) \<Rightarrow> Some (Str (''ERROR: '' @ message e)))"

text \<open>The test of the outer loop that makes it pass over a row.\<close>

definition skipped :: "cell \<Rightarrow> bool" where
  "skipped prompt = (isna prompt \<or> strip (str_of prompt) = [])"

fun process_rows ::
  "('c, 'i) plugins \<Rightarrow> (string \<times> 'i) list \<Rightarrow> dataframe \<Rightarrow> string \<Rightarrow> nat list
     \<Rightarrow> batch_state \<Rightarrow> batch_state option" where
  "process_rows E cs df prompt_column [] st = Some st"
| "process_rows E cs df prompt_column (idx # idxs) st =
     (let prompt = cell_at df idx prompt_column in
      if skipped prompt then process_rows E cs df prompt_column idxs st
      else (case run_converters E cs idx (str_of prompt) st of
              None \<Rightarrow> None
            | Some st' \<Rightarrow> process_rows E cs df prompt_column idxs st'))"

datatype batch_exit = ReadFailed | ColumnNotFound

text \<open>The table after the row cap: \<^verbatim>\<open>if max_rows: df = df.head(max_rows)\<close>.\<close>

definition capped :: "dataframe \<Rightarrow> int option \<Rightarrow> dataframe" where
  "capped df max_rows =
     (case max_rows of
        None \<Rightarrow> df
      | Some n \<Rightarrow> if n \<noteq> 0 then head df n else df)"

text \<open>
  \<open>input\<close> is what reading the input file gives: \<open>None\<close> when neither reader can
  read it. The result is the table handed to the writer, with the log of conversions.
\<close>

definition process_excel ::
  "('c, 'i) plugins \<Rightarrow> 'i discovery \<Rightarrow> dataframe option \<Rightarrow> string \<Rightarrow> int option
     \<Rightarrow> (batch_exit + batch_state) option" where
  "process_excel E D input prompt_column max_rows =
     (case input of
        None \<Rightarrow> Some (Inl ReadFailed)
      | Some df0 \<Rightarrow>
          if prompt_column \<notin> set (columns df0) then Some (Inl ColumnNotFound)
          else
            (let df = capped df0 max_rows in
             map_option Inr
               (process_rows E (text_to_text_converters D) df prompt_column
                  [0..<length (rows df)] (df, []))))"

section \<open>Example plugins\<close>

text \<open>
  A small set of plugins on which the theorems below are exercised. Classes and instances
  are named by strings. \<open>Upper\<close> needs no argument and converts to upper case;
  \<open>Picky\<close> rejects the first two patterns; \<open>Late\<close> fails once with an error that is
  neither a \<^verbatim>\<open>TypeError\<close> nor a \<^verbatim>\<open>ValueError\<close>; \<open>Shy\<close> accepts no pattern;
  \<open>Fatal\<close> fails for good; the conversion of \<open>Slow\<close> and of \<open>Human\<close> stays pending
  until it is cancelled, the conversion of \<open>Busy\<close> keeps the event loop for six seconds,
  the conversion of \<open>Broken\<close> raises, and the conversion of \<open>Fussy\<close> raises for the
  prompt \<^verbatim>\<open>go\<close>.
\<close>

definition demo_construct :: "string \<Rightarrow> params \<Rightarrow> py_exception + string" where
  "demo_construct c ps =
     (if c = ''Upper'' then Inr ''upper''
      else if c = ''Picky'' then
        (if ps = [] then
           Inl \<lparr>exc_class = TypeError, type_name = ''TypeError'',
                message = ''missing 1 required keyword-only argument''\<rparr>
         else if ps = [(''append_description'', PyBool False)] then
           Inl \<lparr>exc_class = ValueError, type_name = ''ValueError'',
                message = ''Offset cannot be Empty''\<rparr>
         else Inr ''picky'')
      else if c = ''Late'' then
        (if ps = [] then
           Inl \<lparr>exc_class = OtherException, type_name = ''RuntimeError'',
                message = ''missing configuration''\<rparr>
         else Inr ''late'')
      else if c = ''Shy'' then
        Inl \<lparr>exc_class = TypeError, type_name = ''TypeError'',
             message = ''unexpected keyword argument''\<rparr>
      else if c = ''Slow'' then Inr ''slow''
      else if c = ''Human'' then Inr ''human''
      else if c = ''Broken'' then Inr ''broken''
      else if c = ''Busy'' then Inr ''busy''
      else if c = ''Fussy'' then Inr ''fussy''
      else
        Inl \<lparr>exc_class = ValueError, type_name = ''ValueError'', message = ''boom''\<rparr>)"

definition demo_convert :: "string \<Rightarrow> string \<Rightarrow> string \<Rightarrow> converter_result awaitable" where
  "demo_convert i prompt input_type =
     (if i = ''slow'' \<or> i = ''human'' then Never Stops
      else if i = ''broken'' then
        Completes 0 (Inl \<lparr>exc_class = OtherException, type_name = ''RuntimeError'',
                          message = ''bad input''\<rparr>) Stops
      else if i = ''busy'' then
        Blocks 6 (Inr \<lparr>output_text = upper prompt, output_type = ''text''\<rparr>)
      else if i = ''fussy'' \<and> prompt = ''go'' then
        Completes 0 (Inl \<lparr>exc_class = ValueError, type_name = ''ValueError'',
                          message = ''cannot convert go''\<rparr>) Stops
      else Completes 0 (Inr \<lparr>output_text = upper prompt, output_type = ''text''\<rparr>) Stops)"

definition demo_import :: "string \<Rightarrow> py_exception + (string \<times> string) list" where
  "demo_import module_name =
     (if module_name = ''a_converter'' then
        Inr [(''Helper'', ''Fatal''), (''UpperCaseConverter'', ''Upper''),
             (''_PrivateConverter'', ''Fatal'')]
      else if module_name = ''broken_converter'' then
        Inl \<lparr>exc_class = OtherException, type_name = ''ModuleNotFoundError'',
             message = ''No module named pyrit''\<rparr>
      else if module_name = ''slow_converter'' then
        Inr [(''SlowConverter'', ''Slow''), (''UpperCaseConverter'', ''Upper'')]
      else if module_name = ''z_converter'' then
        Inr [(''UpperCaseConverter'', ''Fatal'')]
      else if module_name = ''picky_converter'' then
        Inr [(''PickyConverter'', ''Picky''), (''ShyConverter'', ''Shy'')]
      else if module_name = ''fussy_converter'' then
        Inr [(''FussyConverter'', ''Fussy'')]
      else Inr [])"

definition demo :: "(string, string) plugins" where
  "demo =
     \<lparr>construct = demo_construct,
      supported_input_types = (\<lambda>i. Sequence [''text'']),
      supported_output_types =
        (\<lambda>i. if i = ''picky'' then Sequence [''image_path''] else Sequence [''text'']),
      convert_async = demo_convert,
      import_module = demo_import\<rparr>"


text \<open>
  The ledger after a discovery run over the module \<^verbatim>\<open>a_converter\<close>, the ledger after
  a discovery run over the modules \<^verbatim>\<open>a_converter\<close> and \<^verbatim>\<open>fussy_converter\<close>, and a
  table of three prompts, the second of them blank.
\<close>

definition demo_ledger :: "string discovery" where
  "demo_ledger =
     discover_and_test_converters demo (Some [''a_converter.py'']) new_discovery"

definition fussy_ledger :: "string discovery" where
  "fussy_ledger =
     discover_and_test_converters demo (Some [''fussy_converter.py'', ''a_converter.py''])
       new_discovery"

definition demo_table :: dataframe where
  "demo_table = \<lparr>columns = [''prompt''], rows = [[Str ''hi''], [Str ''''], [Str ''go'']]\<rparr>"

section \<open>The verdict on a class\<close>

definition text_to_text :: "('c, 'i) plugins \<Rightarrow> 'i \<Rightarrow> bool" where
  "text_to_text E i =
     (''text'' \<in> set (kinds (supported_input_types E i))
      \<and> ''text'' \<in> set (kinds (supported_output_types E i)))"

text \<open>
  What \<^verbatim>\<open>_test_converter_class\<close> decides about a class, apart from the ledger it
  writes to: the instance that is recorded as working, the reason recorded as failed, or
  both when the read of a capability attribute raises after the plugin has been recorded
  as working. It is used to state what the ledger holds after a probe, and is shown below
  to agree with \<open>test_converter_class\<close>.
\<close>

datatype 'i verdict = Works 'i | Fails string | WorksThenFails 'i string

definition class_verdict :: "('c, 'i) plugins \<Rightarrow> string \<Rightarrow> 'c \<Rightarrow> 'i verdict" where
  "class_verdict E class_name converter_class =
     (case fst (try_instantiate E converter_class) of
        None \<Rightarrow> Fails ''Could not instantiate with any known parameters''
      | Some i \<Rightarrow>
          if class_name = ''HumanInTheLoopConverter'' then Works i
          else (case fst (wait_for (convert_async E i ''test'' ''text'') 5) of
                  Inl e \<Rightarrow> Fails (failure_reason e)
                | Inr test_result \<Rightarrow>
                    if text_to_text E i then Works i
                    else (case first_or_unknown (supported_input_types E i) of
                            Inl e \<Rightarrow> WorksThenFails i (failure_reason e)
                          | Inr input_t \<Rightarrow>
                              (case first_or_unknown (supported_output_types E i) of
                                 Inl e \<Rightarrow> WorksThenFails i (failure_reason e)
                               | Inr output_t \<Rightarrow> Works i))))"

text \<open>The entries logged by \<open>test_converter_class\<close> for a class.\<close>

definition class_calls :: "('c, 'i) plugins \<Rightarrow> string \<Rightarrow> 'c \<Rightarrow> (string \<times> real) list" where
  "class_calls E class_name converter_class =
     (case fst (try_instantiate E converter_class) of
        None \<Rightarrow> []
      | Some i \<Rightarrow>
          if class_name = ''HumanInTheLoopConverter'' then []
          else [(class_name, snd (wait_for (convert_async E i ''test'' ''text'') 5))])"

text \<open>Two ledgers hold the same about a name.\<close>

definition agree_on :: "string \<Rightarrow> 'i discovery \<Rightarrow> 'i discovery \<Rightarrow> bool" where
  "agree_on name D1 D2 =
     (working_converters D1 name = working_converters D2 name
      \<and> failed_converters D1 name = failed_converters D2 name
      \<and> map_of (text_to_text_converters D1) name = map_of (text_to_text_converters D2) name)"






section \<open>The probing loop\<close>

lemma try_patterns_prefix: "prefix (snd (try_patterns E c ps)) ps"
  by (induction ps) (auto split: sum.splits prod.splits)

lemma try_patterns_nonempty: "ps \<noteq> [] \<Longrightarrow> snd (try_patterns E c ps) \<noteq> []"
  by (cases ps) (auto split: sum.splits prod.splits)

lemma try_patterns_hd: "ps \<noteq> [] \<Longrightarrow> hd (snd (try_patterns E c ps)) = hd ps"
  by (cases ps) (auto split: sum.splits prod.splits)

lemma try_patterns_earlier_failed:
  "Suc j < length (snd (try_patterns E c ps)) \<Longrightarrow>
     \<exists>e. construct E c (ps ! j) = Inl e \<and> \<not> except_breaks e"
proof (induction ps arbitrary: j)
  case Nil
  then show ?case by simp
next
  case (Cons p ps)
  show ?case
  proof (cases "construct E c p")
    case (Inr i)
    with Cons.prems show ?thesis by simp
  next
    case (Inl e)
    show ?thesis
    proof (cases "except_breaks e")
      case True
      with Inl Cons.prems show ?thesis by simp
    next
      case False
      show ?thesis
      proof (cases j)
        case 0
        with Inl False show ?thesis by simp
      next
        case (Suc k)
        with Inl False Cons.prems have "Suc k < length (snd (try_patterns E c ps))"
          by (simp split: prod.splits)
        from Cons.IH [OF this] Suc show ?thesis by simp
      qed
    qed
  qed
qed

lemma try_patterns_result:
  "ps \<noteq> [] \<Longrightarrow>
     fst (try_patterns E c ps) =
       (case construct E c (last (snd (try_patterns E c ps))) of
          Inr i \<Rightarrow> Some i | Inl e \<Rightarrow> None)"
proof (induction ps)
  case Nil
  then show ?case by simp
next
  case (Cons p ps)
  show ?case
  proof (cases "ps = []")
    case True
    then show ?thesis by (auto split: sum.splits)
  next
    case False
    then have ne: "snd (try_patterns E c ps) \<noteq> []"
      by (rule try_patterns_nonempty)
    from False Cons.IH have "fst (try_patterns E c ps) =
       (case construct E c (last (snd (try_patterns E c ps))) of
          Inr i \<Rightarrow> Some i | Inl e \<Rightarrow> None)" by simp
    with ne show ?thesis
      by (auto split: sum.splits prod.splits)
  qed
qed

lemma try_patterns_exhausted:
  "\<forall>p\<in>set ps. \<exists>e. construct E c p = Inl e \<and> \<not> except_breaks e \<Longrightarrow>
     try_patterns E c ps = (None, ps)"
  by (induction ps) auto

lemma try_patterns_append:
  "\<forall>q\<in>set pre. \<exists>e. construct E c q = Inl e \<and> \<not> except_breaks e \<Longrightarrow>
     try_patterns E c (pre @ ps) =
       (fst (try_patterns E c ps), pre @ snd (try_patterns E c ps))"
  by (induction pre) (auto split: prod.splits)

lemma patterns_nonempty: "patterns \<noteq> []" and hd_patterns: "hd patterns = []"
  and length_patterns: "length patterns = 21"
  by (simp_all add: patterns_def)

text \<open>
  Claim C1, as the code has it. When the loop reaches a candidate whose construction fails,
  it goes on with the next candidate in three cases: the failure is a \<^verbatim>\<open>TypeError\<close>;
  it is a \<^verbatim>\<open>ValueError\<close> whose message, in lower case, contains \<^verbatim>\<open>required\<close>,
  \<^verbatim>\<open>empty\<close> or \<^verbatim>\<open>valid\<close>; it is any other exception whose message, in lower
  case, contains \<^verbatim>\<open>required\<close> or \<^verbatim>\<open>missing\<close>. Every other failure ends the
  probing of the class at this candidate, with no instance.
\<close>

theorem prober_failure_classification:
  assumes "patterns = pre @ p # rest"
    and "\<forall>q\<in>set pre. \<exists>e'. construct E c q = Inl e' \<and> \<not> except_breaks e'"
    and "construct E c p = Inl e"
  shows "try_instantiate E c =
    (if exc_class e = TypeError
        \<or> (exc_class e = ValueError
            \<and> (str_in ''required'' (lower (message e)) \<or> str_in ''empty'' (lower (message e))
                \<or> str_in ''valid'' (lower (message e))))
        \<or> (exc_class e \<noteq> TypeError \<and> exc_class e \<noteq> ValueError
            \<and> (str_in ''required'' (lower (message e))
                \<or> str_in ''missing'' (lower (message e))))
     then (fst (try_patterns E c rest), pre @ p # snd (try_patterns E c rest))
     else (None, pre @ [p]))"
proof -
  have "try_instantiate E c =
      (fst (try_patterns E c (p # rest)), pre @ snd (try_patterns E c (p # rest)))"
    unfolding try_instantiate_def assms(1) using assms(2) by (rule try_patterns_append)
  then show ?thesis
    using assms(3) by (auto simp: except_breaks_def Let_def split: prod.splits)
qed

theorem prober_failure_classification_witness:
  "try_instantiate demo ''Picky'' =
     (Some ''picky'',
      [[], [(''append_description'', PyBool False)], [(''caesar_offset'', PyInt 13)]])"
  using prober_failure_classification [of "[[]]" "[(''append_description'', PyBool False)]"
      "drop 2 patterns" demo "''Picky''"
      "\<lparr>exc_class = ValueError, type_name = ''ValueError'', message = ''Offset cannot be Empty''\<rparr>"]
  by (simp add: patterns_def demo_def demo_construct_def except_breaks_def lower_def
      lower_char_def)

text \<open>
  The claim as the spec words it fails: the constructor of \<open>Late\<close> raises a
  \<^verbatim>\<open>RuntimeError\<close> with the message \<^verbatim>\<open>missing configuration\<close> for the first
  candidate, and the prober goes on to the second candidate, which succeeds.
\<close>

theorem other_failure_continues_counterexample:
  "construct demo ''Late'' [] =
     Inl \<lparr>exc_class = OtherException, type_name = ''RuntimeError'',
          message = ''missing configuration''\<rparr>
   \<and> try_instantiate demo ''Late'' =
       (Some ''late'', [[], [(''append_description'', PyBool False)]])"
  by (simp add: try_instantiate_def patterns_def demo_def demo_construct_def except_breaks_def
      lower_def lower_char_def)

lemma try_patterns_first_success:
  assumes "k < length ps" and "construct E c (ps ! k) = Inr i"
    and "\<forall>j<k. \<exists>e. construct E c (ps ! j) = Inl e \<and> \<not> except_breaks e"
  shows "try_patterns E c ps = (Some i, take (Suc k) ps)"
proof -
  have split: "ps = take k ps @ (ps ! k) # drop (Suc k) ps"
    using assms(1) by (simp add: id_take_nth_drop)
  have "\<forall>q\<in>set (take k ps). \<exists>e. construct E c q = Inl e \<and> \<not> except_breaks e"
    using assms(1,3) by (auto simp: in_set_conv_nth)
  then have "try_patterns E c (take k ps @ (ps ! k) # drop (Suc k) ps) =
      (fst (try_patterns E c ((ps ! k) # drop (Suc k) ps)),
       take k ps @ snd (try_patterns E c ((ps ! k) # drop (Suc k) ps)))"
    by (rule try_patterns_append)
  with split have "try_patterns E c ps = (Some i, take k ps @ [ps ! k])"
    using assms(2) by simp
  then show ?thesis
    using assms(1) by (simp add: take_Suc_conv_app_nth)
qed

lemma test_converter_class_not_instantiated:
  "fst (try_instantiate E c) = None \<Longrightarrow>
     test_converter_class E class_name c D =
       D\<lparr>failed_converters := (failed_converters D)(class_name \<mapsto>
            ''Could not instantiate with any known parameters'')\<rparr>"
  by (simp add: test_converter_class_def)

text \<open>
  Claim C2. The prober calls the constructor with a non-empty initial segment of the
  declared patterns, in their order, starting with the pattern without arguments. Every
  call but the last one failed, so nothing is tried after a success, and the result is
  the instance of the last call when that call succeeded and no instance otherwise; the
  first pattern that constructs, all earlier ones having failed without ending the
  probing, gives the instance returned. When every pattern fails without ending the
  probing, all of them are tried and the class is recorded as failed with the reason
  \<^verbatim>\<open>Could not instantiate with any known parameters\<close>.
\<close>

theorem prober_order_and_exhaustion:
  "prefix (snd (try_instantiate E c)) patterns
   \<and> hd patterns = [] \<and> hd (snd (try_instantiate E c)) = []
   \<and> (\<forall>j. Suc j < length (snd (try_instantiate E c)) \<longrightarrow>
         (\<exists>e. construct E c (patterns ! j) = Inl e \<and> \<not> except_breaks e))
   \<and> fst (try_instantiate E c) =
       (case construct E c (last (snd (try_instantiate E c))) of
          Inr i \<Rightarrow> Some i | Inl e \<Rightarrow> None)
   \<and> (\<forall>k i. k < length patterns \<and> construct E c (patterns ! k) = Inr i
         \<and> (\<forall>j<k. \<exists>e. construct E c (patterns ! j) = Inl e \<and> \<not> except_breaks e) \<longrightarrow>
         try_instantiate E c = (Some i, take (Suc k) patterns))
   \<and> ((\<forall>p\<in>set patterns. \<exists>e. construct E c p = Inl e \<and> \<not> except_breaks e) \<longrightarrow>
         try_instantiate E c = (None, patterns)
         \<and> test_converter_class E class_name c D =
             D\<lparr>failed_converters := (failed_converters D)(class_name \<mapsto>
                  ''Could not instantiate with any known parameters'')\<rparr>)"
proof (intro conjI allI impI)
  show "prefix (snd (try_instantiate E c)) patterns"
    unfolding try_instantiate_def by (rule try_patterns_prefix)
  show "hd patterns = []" by (rule hd_patterns)
  show "hd (snd (try_instantiate E c)) = []"
    unfolding try_instantiate_def
    by (simp add: try_patterns_hd patterns_nonempty hd_patterns)
  show "\<exists>e. construct E c (patterns ! j) = Inl e \<and> \<not> except_breaks e"
    if "Suc j < length (snd (try_instantiate E c))" for j
    using that unfolding try_instantiate_def by (rule try_patterns_earlier_failed)
  show "fst (try_instantiate E c) =
       (case construct E c (last (snd (try_instantiate E c))) of
          Inr i \<Rightarrow> Some i | Inl e \<Rightarrow> None)"
    unfolding try_instantiate_def using patterns_nonempty by (rule try_patterns_result)
  show "try_instantiate E c = (Some i, take (Suc k) patterns)"
    if "k < length patterns \<and> construct E c (patterns ! k) = Inr i
         \<and> (\<forall>j<k. \<exists>e. construct E c (patterns ! j) = Inl e \<and> \<not> except_breaks e)" for k i
    using that unfolding try_instantiate_def by (simp add: try_patterns_first_success)
  assume all: "\<forall>p\<in>set patterns. \<exists>e. construct E c p = Inl e \<and> \<not> except_breaks e"
  then show ex: "try_instantiate E c = (None, patterns)"
    unfolding try_instantiate_def by (rule try_patterns_exhausted)
  then show "test_converter_class E class_name c D =
             D\<lparr>failed_converters := (failed_converters D)(class_name \<mapsto>
                  ''Could not instantiate with any known parameters'')\<rparr>"
    by (simp add: test_converter_class_not_instantiated)
qed

theorem prober_order_and_exhaustion_witness:
  "try_instantiate demo ''Shy'' = (None, patterns)
   \<and> failed_converters (test_converter_class demo ''ShyConverter'' ''Shy'' new_discovery)
       ''ShyConverter'' = Some ''Could not instantiate with any known parameters''
   \<and> try_instantiate demo ''Picky'' = (Some ''picky'', take 3 patterns)"
proof -
  have shy: "\<forall>p\<in>set patterns.
      \<exists>e. construct demo ''Shy'' p = Inl e \<and> \<not> except_breaks e"
    by (simp add: demo_def demo_construct_def except_breaks_def)
  have picky: "(2::nat) < length patterns \<and> construct demo ''Picky'' (patterns ! 2) = Inr ''picky''
      \<and> (\<forall>j<2. \<exists>e. construct demo ''Picky'' (patterns ! j) = Inl e \<and> \<not> except_breaks e)"
    by (simp add: patterns_def demo_def demo_construct_def except_breaks_def lower_def
        lower_char_def less_Suc_eq numeral_2_eq_2)
  note shy_run = prober_order_and_exhaustion [of demo "''Shy''" "''ShyConverter''" new_discovery]
  from shy_run shy have 1: "try_instantiate demo ''Shy'' = (None, patterns)"
    by simp
  from shy_run shy
  have 2: "test_converter_class demo ''ShyConverter'' ''Shy'' new_discovery =
      new_discovery\<lparr>failed_converters := (failed_converters (new_discovery :: string discovery))(''ShyConverter'' \<mapsto>
                  ''Could not instantiate with any known parameters'')\<rparr>"
    by simp
  from prober_order_and_exhaustion [of demo "''Picky''" "''X''" new_discovery] picky
  have 3: "try_instantiate demo ''Picky'' = (Some ''picky'', take (Suc 2) patterns)"
    by blast
  from 1 2 3 show ?thesis by (simp add: new_discovery_def)
qed

section \<open>The ledger after probing a class\<close>

lemma test_converter_class_verdict:
  "test_converter_class E cn c D =
     (let D1 = D\<lparr>probe_calls := probe_calls D @ class_calls E cn c\<rparr> in
      case class_verdict E cn c of
        Works i \<Rightarrow>
          mark_working cn i (supported_input_types E i) (supported_output_types E i) D1
      | Fails msg \<Rightarrow> D1\<lparr>failed_converters := (failed_converters D1)(cn \<mapsto> msg)\<rparr>
      | WorksThenFails i msg \<Rightarrow>
          (let D2 = mark_working cn i (supported_input_types E i)
                      (supported_output_types E i) D1
           in D2\<lparr>failed_converters := (failed_converters D2)(cn \<mapsto> msg)\<rparr>))"
  by (simp add: test_converter_class_def class_verdict_def class_calls_def text_to_text_def
      Let_def split: option.splits sum.splits prod.splits)

lemma working_test_converter_class:
  "working_converters (test_converter_class E cn c D) =
     (case class_verdict E cn c of
        Works i \<Rightarrow> (working_converters D)(cn \<mapsto>
          \<lparr>inst = i, inputs = supported_input_types E i,
           outputs = supported_output_types E i, is_text_to_text = text_to_text E i\<rparr>)
      | Fails msg \<Rightarrow> working_converters D
      | WorksThenFails i msg \<Rightarrow> (working_converters D)(cn \<mapsto>
          \<lparr>inst = i, inputs = supported_input_types E i,
           outputs = supported_output_types E i, is_text_to_text = text_to_text E i\<rparr>))"
  by (simp add: test_converter_class_verdict mark_working_def text_to_text_def Let_def
      split: verdict.splits)

lemma failed_test_converter_class:
  "failed_converters (test_converter_class E cn c D) =
     (case class_verdict E cn c of
        Works i \<Rightarrow> failed_converters D
      | Fails msg \<Rightarrow> (failed_converters D)(cn \<mapsto> msg)
      | WorksThenFails i msg \<Rightarrow> (failed_converters D)(cn \<mapsto> msg))"
  by (simp add: test_converter_class_verdict mark_working_def Let_def split: verdict.splits)

lemma text_to_text_test_converter_class:
  "text_to_text_converters (test_converter_class E cn c D) =
     (case class_verdict E cn c of
        Works i \<Rightarrow>
          if text_to_text E i then AList.update cn i (text_to_text_converters D)
          else text_to_text_converters D
      | Fails msg \<Rightarrow> text_to_text_converters D
      | WorksThenFails i msg \<Rightarrow> text_to_text_converters D)"
  by (auto simp add: test_converter_class_verdict mark_working_def text_to_text_def Let_def
      class_verdict_def split: verdict.splits option.splits sum.splits if_splits)

lemma probe_calls_test_converter_class:
  "probe_calls (test_converter_class E cn c D) = probe_calls D @ class_calls E cn c"
  by (simp add: test_converter_class_verdict mark_working_def Let_def split: verdict.splits)

lemmas ledger_after_class =
  working_test_converter_class failed_test_converter_class text_to_text_test_converter_class

section \<open>Names that a probe does not touch\<close>

lemma agree_on_refl: "agree_on n D D"
  by (simp add: agree_on_def)

lemma agree_on_class:
  "agree_on n D1 D2 \<Longrightarrow>
     agree_on n (test_converter_class E cn c D1) (test_converter_class E cn c D2)"
  by (auto simp: agree_on_def ledger_after_class update_conv' split: verdict.splits)

lemma agree_on_other_class:
  "n \<noteq> cn \<Longrightarrow> agree_on n (test_converter_class E cn c D) D"
  by (auto simp: agree_on_def ledger_after_class update_conv' split: verdict.splits)

lemma agree_on_classes:
  "agree_on n D1 D2 \<Longrightarrow>
     agree_on n (test_converter_classes E cs D1) (test_converter_classes E cs D2)"
proof (induction cs arbitrary: D1 D2)
  case Nil
  then show ?case by simp
next
  case (Cons a cs)
  obtain cn c where a: "a = (cn, c)" by (cases a)
  from Cons.prems have "agree_on n (test_converter_class E cn c D1) (test_converter_class E cn c D2)"
    by (rule agree_on_class)
  then show ?case unfolding a by (simp add: Cons.IH)
qed

lemma agree_on_module:
  "agree_on n D1 D2 \<Longrightarrow>
     agree_on n (test_converter_module E m D1) (test_converter_module E m D2)"
  by (cases "import_module E m")
    (auto simp: test_converter_module_def agree_on_classes, simp add: agree_on_def)

lemma agree_on_modules:
  "agree_on n D1 D2 \<Longrightarrow>
     agree_on n (test_converter_modules E ms D1) (test_converter_modules E ms D2)"
proof (induction ms arbitrary: D1 D2)
  case Nil
  then show ?case by simp
next
  case (Cons m ms)
  from Cons.prems have "agree_on n (test_converter_module E m D1) (test_converter_module E m D2)"
    by (rule agree_on_module)
  then show ?case by (simp add: Cons.IH)
qed

section \<open>The execution harness\<close>

lemma wait_for_exceeded:
  "aw = Never Stops \<or> (\<exists>d r. aw = Completes d r Stops \<and> timeout < d) \<Longrightarrow>
     wait_for aw timeout = (Inl timeout_error, timeout)"
  by (auto simp: wait_for_def cancelled_def)

text \<open>
  Claim C4, as the code has it. The deadline of the conversion test is enforced by the
  event loop, so it takes effect only for a conversion that yields to the event loop. Let
  a plugin be instantiated and not be the human-in-the-loop converter. If its conversion
  of the probe text yields to the event loop, is not complete after 5 time units (it takes
  longer, or stays pending) and ends when it is cancelled, then the harness waits 5 time
  units for it and no longer, records it as failed with the timeout reason, and changes
  nothing else of the ledger; the loop goes on with the remaining classes of the module
  and with the remaining modules, and what they record about every other name is what they
  would have recorded had this plugin not been probed. If its conversion yields and
  returns a result before the 5 time units are over, the harness waits that long and
  records the plugin as working: the limit is 5 time units and no less.
\<close>

theorem pending_conversion_timeout_recorded:
  assumes "fst (try_instantiate E c) = Some i"
    and "cn \<noteq> ''HumanInTheLoopConverter''"
  shows "(convert_async E i ''test'' ''text'' = Never Stops
          \<or> (\<exists>d r. convert_async E i ''test'' ''text'' = Completes d r Stops \<and> 5 < d) \<longrightarrow>
          test_converter_class E cn c D =
            D\<lparr>probe_calls := probe_calls D @ [(cn, 5)],
              failed_converters := (failed_converters D)(cn \<mapsto>
                ''Conversion test timeout (likely interactive converter)'')\<rparr>
          \<and> test_converter_classes E ((cn, c) # rest) D =
              test_converter_classes E rest (test_converter_class E cn c D)
          \<and> (\<forall>n. n \<noteq> cn \<longrightarrow>
                agree_on n
                  (test_converter_modules E ms
                     (test_converter_classes E rest (test_converter_class E cn c D)))
                  (test_converter_modules E ms (test_converter_classes E rest D))))
       \<and> (\<forall>d r oc. convert_async E i ''test'' ''text'' = Completes d (Inr r) oc \<and> d < 5 \<longrightarrow>
            probe_calls (test_converter_class E cn c D) = probe_calls D @ [(cn, d)]
            \<and> working_converters (test_converter_class E cn c D) cn =
                Some \<lparr>inst = i, inputs = supported_input_types E i,
                      outputs = supported_output_types E i,
                      is_text_to_text = text_to_text E i\<rparr>)"
proof (intro conjI allI impI)
  assume late: "convert_async E i ''test'' ''text'' = Never Stops
      \<or> (\<exists>d r. convert_async E i ''test'' ''text'' = Completes d r Stops \<and> 5 < d)"
  then have "wait_for (convert_async E i ''test'' ''text'') 5 = (Inl timeout_error, 5)"
    by (rule wait_for_exceeded)
  with assms show "test_converter_class E cn c D =
           D\<lparr>probe_calls := probe_calls D @ [(cn, 5)],
             failed_converters := (failed_converters D)(cn \<mapsto>
               ''Conversion test timeout (likely interactive converter)'')\<rparr>"
    by (simp add: test_converter_class_def timeout_error_def failure_reason_def)
  show "test_converter_classes E ((cn, c) # rest) D =
           test_converter_classes E rest (test_converter_class E cn c D)"
    by simp
  fix n :: string
  assume "n \<noteq> cn"
  then have "agree_on n (test_converter_class E cn c D) D"
    by (rule agree_on_other_class)
  then have "agree_on n (test_converter_classes E rest (test_converter_class E cn c D))
      (test_converter_classes E rest D)"
    by (rule agree_on_classes)
  then show "agree_on n
               (test_converter_modules E ms
                  (test_converter_classes E rest (test_converter_class E cn c D)))
               (test_converter_modules E ms (test_converter_classes E rest D))"
    by (rule agree_on_modules)
next
  fix d r oc
  assume "convert_async E i ''test'' ''text'' = Completes d (Inr r) oc \<and> d < 5"
  then have w: "wait_for (convert_async E i ''test'' ''text'') 5 = (Inr r, d)"
    by (simp add: wait_for_def)
  from w assms show "probe_calls (test_converter_class E cn c D) = probe_calls D @ [(cn, d)]"
    by (simp add: probe_calls_test_converter_class class_calls_def)
  from w assms show "working_converters (test_converter_class E cn c D) cn =
                Some \<lparr>inst = i, inputs = supported_input_types E i,
                      outputs = supported_output_types E i,
                      is_text_to_text = text_to_text E i\<rparr>"
    by (simp add: working_test_converter_class class_verdict_def
        split: sum.splits)
qed

text \<open>
  The plugin \<open>Slow\<close>, whose conversion stays pending: the harness waits 5 time units and
  records the timeout, and the plugin probed after it is recorded as it would have been.
  The plugin \<open>Upper\<close>, whose conversion returns at once, is recorded as working.
\<close>

theorem pending_conversion_timeout_recorded_witness:
  "test_converter_class demo ''SlowConverter'' ''Slow'' new_discovery =
     \<lparr>working_converters = Map.empty,
      failed_converters = [''SlowConverter'' \<mapsto>
        ''Conversion test timeout (likely interactive converter)''],
      text_to_text_converters = [], probe_calls = [(''SlowConverter'', 5)]\<rparr>
   \<and> map_of (text_to_text_converters
        (test_converter_classes demo
           [(''SlowConverter'', ''Slow''), (''UpperCaseConverter'', ''Upper'')] new_discovery))
        ''UpperCaseConverter'' = Some ''upper''
   \<and> probe_calls (test_converter_class demo ''UpperCaseConverter'' ''Upper'' new_discovery) =
       [(''UpperCaseConverter'', 0)]
   \<and> working_converters (test_converter_class demo ''UpperCaseConverter'' ''Upper''
         new_discovery) ''UpperCaseConverter'' =
       Some \<lparr>inst = ''upper'', inputs = Sequence [''text''], outputs = Sequence [''text''],
             is_text_to_text = True\<rparr>"
proof -
  have inst: "fst (try_instantiate demo ''Slow'') = Some ''slow''"
    by (simp add: try_instantiate_def patterns_def demo_def demo_construct_def)
  have ne: "''SlowConverter'' \<noteq> ''HumanInTheLoopConverter''" by simp
  have slow: "convert_async demo ''slow'' ''test'' ''text'' = Never Stops
      \<or> (\<exists>d r. convert_async demo ''slow'' ''test'' ''text'' = Completes d r Stops \<and> 5 < d)"
    by (simp add: demo_def demo_convert_def)
  note run = pending_conversion_timeout_recorded [OF inst ne,
      of "new_discovery" "[(''UpperCaseConverter'', ''Upper'')]" "[]",
      THEN conjunct1, rule_format, OF slow]
  from run have 1: "test_converter_class demo ''SlowConverter'' ''Slow'' new_discovery =
     \<lparr>working_converters = Map.empty,
      failed_converters = [''SlowConverter'' \<mapsto>
        ''Conversion test timeout (likely interactive converter)''],
      text_to_text_converters = [], probe_calls = [(''SlowConverter'', 5)]\<rparr>"
    by (simp add: new_discovery_def)
  from run [THEN conjunct2, THEN conjunct2, rule_format, of "''UpperCaseConverter''"]
  have "agree_on ''UpperCaseConverter''
      (test_converter_classes demo [(''UpperCaseConverter'', ''Upper'')]
         (test_converter_class demo ''SlowConverter'' ''Slow'' new_discovery))
      (test_converter_classes demo [(''UpperCaseConverter'', ''Upper'')] new_discovery)"
    by simp
  moreover have "class_verdict demo ''UpperCaseConverter'' ''Upper'' = Works ''upper''"
    by (simp add: class_verdict_def try_instantiate_def patterns_def demo_def
        demo_construct_def demo_convert_def wait_for_def text_to_text_def)
  ultimately have 2: "map_of (text_to_text_converters
        (test_converter_classes demo
           [(''SlowConverter'', ''Slow''), (''UpperCaseConverter'', ''Upper'')] new_discovery))
        ''UpperCaseConverter'' = Some ''upper''"
    by (simp add: agree_on_def ledger_after_class text_to_text_def demo_def new_discovery_def)
  have inst': "fst (try_instantiate demo ''Upper'') = Some ''upper''"
    by (simp add: try_instantiate_def patterns_def demo_def demo_construct_def)
  have ne': "''UpperCaseConverter'' \<noteq> ''HumanInTheLoopConverter''" by simp
  have quick: "convert_async demo ''upper'' ''test'' ''text'' =
      Completes 0 (Inr \<lparr>output_text = ''TEST'', output_type = ''text''\<rparr>) Stops
      \<and> (0 :: real) < 5"
    by (simp add: demo_def demo_convert_def upper_def upper_char_def)
  from pending_conversion_timeout_recorded [OF inst' ne', of new_discovery "[]" "[]",
      THEN conjunct2, rule_format, OF quick]
  have 3: "probe_calls (test_converter_class demo ''UpperCaseConverter'' ''Upper''
        new_discovery) = [(''UpperCaseConverter'', 0)]
   \<and> working_converters (test_converter_class demo ''UpperCaseConverter'' ''Upper''
         new_discovery) ''UpperCaseConverter'' =
       Some \<lparr>inst = ''upper'', inputs = Sequence [''text''], outputs = Sequence [''text''],
             is_text_to_text = True\<rparr>"
    by (simp add: new_discovery_def demo_def text_to_text_def)
  from 1 2 3 show ?thesis by simp
qed

text \<open>
  The claim as the specification states it fails for a conversion that keeps the event
  loop. The conversion of \<open>Busy\<close> is not complete after 5 time units; the harness waits
  the 6 time units that it takes and records the plugin as working.
\<close>

theorem blocking_conversion_counterexample:
  "fst (try_instantiate demo ''Busy'') = Some ''busy''
   \<and> convert_async demo ''busy'' ''test'' ''text'' =
       Blocks 6 (Inr \<lparr>output_text = ''TEST'', output_type = ''text''\<rparr>)
   \<and> test_converter_class demo ''BusyConverter'' ''Busy'' new_discovery =
       \<lparr>working_converters = [''BusyConverter'' \<mapsto>
          \<lparr>inst = ''busy'', inputs = Sequence [''text''], outputs = Sequence [''text''],
           is_text_to_text = True\<rparr>],
        failed_converters = Map.empty,
        text_to_text_converters = [(''BusyConverter'', ''busy'')],
        probe_calls = [(''BusyConverter'', 6)]\<rparr>"
  by (simp add: test_converter_class_def try_instantiate_def patterns_def demo_def
      demo_construct_def demo_convert_def wait_for_def mark_working_def new_discovery_def
      upper_def upper_char_def Let_def)

section \<open>The human-in-the-loop converter\<close>

lemma try_patterns_ignores_conversion:
  "try_patterns (E\<lparr>convert_async := f\<rparr>) c ps = try_patterns E c ps"
  by (induction ps) (auto split: sum.splits)

text \<open>
  Claim C9. A class named \<^verbatim>\<open>HumanInTheLoopConverter\<close> that was instantiated is recorded
  as working with its instance and capabilities; the call log is unchanged, and the ledger
  is the same whatever the conversion entry point would do, so the entry point is not
  called. The instance is also recorded as text-to-text when both capability attributes
  contain \<^verbatim>\<open>text\<close>, and the text-to-text ledger is left as it was otherwise.
\<close>

theorem human_in_the_loop_marked_working:
  assumes "fst (try_instantiate E c) = Some i"
  shows "working_converters (test_converter_class E ''HumanInTheLoopConverter'' c D)
           ''HumanInTheLoopConverter'' =
           Some \<lparr>inst = i, inputs = supported_input_types E i,
                 outputs = supported_output_types E i,
                 is_text_to_text =
                   (''text'' \<in> set (kinds (supported_input_types E i))
                    \<and> ''text'' \<in> set (kinds (supported_output_types E i)))\<rparr>
       \<and> probe_calls (test_converter_class E ''HumanInTheLoopConverter'' c D) = probe_calls D
       \<and> failed_converters (test_converter_class E ''HumanInTheLoopConverter'' c D) =
           failed_converters D
       \<and> (\<forall>f. test_converter_class (E\<lparr>convert_async := f\<rparr>) ''HumanInTheLoopConverter'' c D =
                test_converter_class E ''HumanInTheLoopConverter'' c D)
       \<and> (''text'' \<in> set (kinds (supported_input_types E i))
            \<and> ''text'' \<in> set (kinds (supported_output_types E i)) \<longrightarrow>
          text_to_text_converters (test_converter_class E ''HumanInTheLoopConverter'' c D) =
            AList.update ''HumanInTheLoopConverter'' i (text_to_text_converters D)
          \<and> map_of (text_to_text_converters
                (test_converter_class E ''HumanInTheLoopConverter'' c D))
              ''HumanInTheLoopConverter'' = Some i)
       \<and> (\<not> (''text'' \<in> set (kinds (supported_input_types E i))
              \<and> ''text'' \<in> set (kinds (supported_output_types E i))) \<longrightarrow>
          text_to_text_converters (test_converter_class E ''HumanInTheLoopConverter'' c D) =
            text_to_text_converters D)"
proof -
  have v: "class_verdict E ''HumanInTheLoopConverter'' c = Works i"
    using assms by (simp add: class_verdict_def)
  have calls: "class_calls E ''HumanInTheLoopConverter'' c = []"
    using assms by (simp add: class_calls_def)
  have indep: "test_converter_class (E\<lparr>convert_async := f\<rparr>) ''HumanInTheLoopConverter'' c D =
      test_converter_class E ''HumanInTheLoopConverter'' c D" for f
    by (simp add: test_converter_class_def try_instantiate_def try_patterns_ignores_conversion
        Let_def split: option.splits)
  show ?thesis
    using v calls indep
    by (simp add: ledger_after_class probe_calls_test_converter_class text_to_text_def
        update_conv')
qed

theorem human_in_the_loop_marked_working_witness:
  "working_converters (test_converter_class demo ''HumanInTheLoopConverter'' ''Human''
       new_discovery) ''HumanInTheLoopConverter'' =
     Some \<lparr>inst = ''human'', inputs = Sequence [''text''], outputs = Sequence [''text''],
           is_text_to_text = True\<rparr>
   \<and> text_to_text_converters (test_converter_class demo ''HumanInTheLoopConverter'' ''Human''
       new_discovery) = [(''HumanInTheLoopConverter'', ''human'')]
   \<and> probe_calls (test_converter_class demo ''HumanInTheLoopConverter'' ''Human''
       new_discovery) = []"
proof -
  have inst: "fst (try_instantiate demo ''Human'') = Some ''human''"
    by (simp add: try_instantiate_def patterns_def demo_def demo_construct_def)
  from human_in_the_loop_marked_working [OF inst, of new_discovery]
  show ?thesis
    by (simp add: demo_def new_discovery_def)
qed

section \<open>Module names and class names\<close>

lemma stem_converter_file:
  assumes "suffix ''_converter.py'' f"
  shows "suffix ''_converter'' (stem f)"
proof -
  from assms obtain pre where f: "f = pre @ ''_converter.py''"
    by (auto simp: suffix_def)
  have "stem f = pre @ ''_converter''"
    unfolding f stem_def by simp
  then show ?thesis by (simp add: suffix_def)
qed

lemma module_name_suffix:
  "m \<in> set (map stem (sort (converter_files listing))) \<Longrightarrow> suffix ''_converter'' m"
  by (auto simp: converter_files_def stem_converter_file)

lemma module_name_not_class_name:
  assumes "suffix ''_converter'' m"
  shows "\<not> is_converter_class_name m"
proof
  assume "is_converter_class_name m"
  then have "suffix ''Converter'' m" by (simp add: is_converter_class_name_def)
  from this assms have "suffix ''Converter'' ''_converter''"
    by (rule suffix_length_suffix) simp
  then show False by (simp add: suffix_to_prefix)
qed

lemma failed_other_classes:
  "\<forall>(n, c)\<in>set cs. n \<noteq> m \<Longrightarrow>
     failed_converters (test_converter_classes E cs D) m = failed_converters D m"
proof (induction cs arbitrary: D)
  case Nil
  then show ?case by simp
next
  case (Cons a cs)
  obtain n c where a: "a = (n, c)" by (cases a)
  with Cons.prems have "n \<noteq> m" and rest: "\<forall>(n, c)\<in>set cs. n \<noteq> m" by auto
  from \<open>n \<noteq> m\<close> have "failed_converters (test_converter_class E n c D) m = failed_converters D m"
    by (simp add: failed_test_converter_class split: verdict.splits)
  with Cons.IH [OF rest] show ?case unfolding a by simp
qed

lemma failed_module_name_kept:
  assumes "suffix ''_converter'' m"
  shows "failed_converters (test_converter_module E m' D) m =
     (if m' = m
      then (case import_module E m of
              Inl e \<Rightarrow> Some (''Import failed: '' @ type_name e @ '': '' @ message e)
            | Inr members \<Rightarrow> failed_converters D m)
      else failed_converters D m)"
proof (cases "import_module E m'")
  case (Inl e)
  then show ?thesis by (auto simp: test_converter_module_def)
next
  case (Inr members)
  from assms have "\<not> is_converter_class_name m" by (rule module_name_not_class_name)
  then have "\<forall>(n, c)\<in>set (filter (\<lambda>(name, obj). is_converter_class_name name) members). n \<noteq> m"
    by auto
  then have "failed_converters (test_converter_classes E
      (filter (\<lambda>(name, obj). is_converter_class_name name) members) D) m = failed_converters D m"
    by (rule failed_other_classes)
  with Inr show ?thesis by (auto simp: test_converter_module_def)
qed

lemma import_failure_kept:
  assumes "suffix ''_converter'' m" and "import_module E m = Inl e"
    and "failed_converters D m = Some (''Import failed: '' @ type_name e @ '': '' @ message e)"
  shows "failed_converters (test_converter_modules E ms D) m =
     Some (''Import failed: '' @ type_name e @ '': '' @ message e)"
  using assms(3)
proof (induction ms arbitrary: D)
  case Nil
  then show ?case by simp
next
  case (Cons m' ms)
  from Cons.prems assms(2) have "failed_converters (test_converter_module E m' D) m =
      Some (''Import failed: '' @ type_name e @ '': '' @ message e)"
    by (simp add: failed_module_name_kept [OF assms(1)])
  then show ?case by (simp add: Cons.IH)
qed

lemma import_failure_final:
  assumes "suffix ''_converter'' m" and "import_module E m = Inl e" and "m \<in> set ms"
  shows "failed_converters (test_converter_modules E ms D) m =
     Some (''Import failed: '' @ type_name e @ '': '' @ message e)"
  using assms(3)
proof (induction ms arbitrary: D)
  case Nil
  then show ?case by simp
next
  case (Cons m' ms)
  show ?case
  proof (cases "m' = m")
    case True
    with assms(2) have "failed_converters (test_converter_module E m' D) m =
        Some (''Import failed: '' @ type_name e @ '': '' @ message e)"
      by (simp add: failed_module_name_kept [OF assms(1)])
    with assms(1,2) show ?thesis by (simp add: import_failure_kept)
  next
    case False
    with Cons.prems have "m \<in> set ms" by simp
    then show ?thesis by (simp add: Cons.IH)
  qed
qed

text \<open>
  Claim C8. A module whose import raises puts one entry into the failed ledger, under the
  module name and with the type and message of the error, and leaves the rest of the ledger
  as it was. The loop over the modules goes on, what the later modules record about every
  other name is what they would have recorded without this module, and at the end of a
  discovery run over a directory that holds the module the entry is still there.
\<close>

theorem import_failure_recorded:
  assumes "import_module E m = Inl e"
  shows "test_converter_module E m D =
           D\<lparr>failed_converters := (failed_converters D)(m \<mapsto>
               ''Import failed: '' @ type_name e @ '': '' @ message e)\<rparr>
       \<and> test_converter_modules E (m # ms) D =
           test_converter_modules E ms (test_converter_module E m D)
       \<and> (\<forall>n. n \<noteq> m \<longrightarrow>
             agree_on n (test_converter_modules E ms (test_converter_module E m D))
               (test_converter_modules E ms D))
       \<and> (\<forall>listing. m \<in> set (map stem (sort (converter_files listing))) \<longrightarrow>
             failed_converters (discover_and_test_converters E (Some listing) D) m =
               Some (''Import failed: '' @ type_name e @ '': '' @ message e))"
proof (intro conjI allI impI)
  from assms show step: "test_converter_module E m D =
           D\<lparr>failed_converters := (failed_converters D)(m \<mapsto>
               ''Import failed: '' @ type_name e @ '': '' @ message e)\<rparr>"
    by (simp add: test_converter_module_def)
  show "test_converter_modules E (m # ms) D =
           test_converter_modules E ms (test_converter_module E m D)"
    by simp
  show "agree_on n (test_converter_modules E ms (test_converter_module E m D))
               (test_converter_modules E ms D)" if "n \<noteq> m" for n
  proof -
    from that step have "agree_on n (test_converter_module E m D) D"
      by (simp add: agree_on_def)
    then show ?thesis by (rule agree_on_modules)
  qed
  show "failed_converters (discover_and_test_converters E (Some listing) D) m =
               Some (''Import failed: '' @ type_name e @ '': '' @ message e)"
    if "m \<in> set (map stem (sort (converter_files listing)))" for listing
  proof -
    from that have "suffix ''_converter'' m" by (rule module_name_suffix)
    from this assms that show ?thesis
      unfolding discover_and_test_converters_def by (simp add: import_failure_final)
  qed
qed

lemma demo_module_names:
  "map stem (sort (converter_files
      [''slow_converter.py'', ''notes.txt'', ''broken_converter.py'', ''a_converter.py''])) =
   [''a_converter'', ''broken_converter'', ''slow_converter'']"
  by (simp add: converter_files_def stem_def suffix_to_prefix)

theorem import_failure_recorded_witness:
  "failed_converters (discover_and_test_converters demo
      (Some [''slow_converter.py'', ''notes.txt'', ''broken_converter.py'', ''a_converter.py''])
      new_discovery) ''broken_converter'' =
     Some ''Import failed: ModuleNotFoundError: No module named pyrit''
   \<and> test_converter_module demo ''broken_converter'' new_discovery =
       \<lparr>working_converters = Map.empty,
        failed_converters = [''broken_converter'' \<mapsto>
          ''Import failed: ModuleNotFoundError: No module named pyrit''],
        text_to_text_converters = ([] :: (string \<times> string) list), probe_calls = []\<rparr>"
proof -
  have imp: "import_module demo ''broken_converter'' =
      Inl \<lparr>exc_class = OtherException, type_name = ''ModuleNotFoundError'',
           message = ''No module named pyrit''\<rparr>"
    by (simp add: demo_def demo_import_def)
  have mem: "''broken_converter'' \<in> set (map stem (sort (converter_files
      [''slow_converter.py'', ''notes.txt'', ''broken_converter.py'', ''a_converter.py''])))"
    by (simp add: demo_module_names)
  note run = import_failure_recorded [OF imp, of new_discovery "[]"]
  from run mem have "failed_converters (discover_and_test_converters demo
      (Some [''slow_converter.py'', ''notes.txt'', ''broken_converter.py'', ''a_converter.py''])
      new_discovery) ''broken_converter'' =
     Some ''Import failed: ModuleNotFoundError: No module named pyrit''"
    by simp
  moreover from run have "test_converter_module demo ''broken_converter'' new_discovery =
       \<lparr>working_converters = Map.empty,
        failed_converters = [''broken_converter'' \<mapsto>
          ''Import failed: ModuleNotFoundError: No module named pyrit''],
        text_to_text_converters = ([] :: (string \<times> string) list), probe_calls = []\<rparr>"
    by (simp add: new_discovery_def)
  ultimately show ?thesis by simp
qed

section \<open>Invariants of the ledger\<close>
















lemma verdict_upper: "class_verdict demo n ''Upper'' = Works ''upper''"
  by (simp add: class_verdict_def try_instantiate_def patterns_def demo_def
      demo_construct_def demo_convert_def wait_for_def text_to_text_def)





lemma demo_class_names:
  "is_converter_class_name ''UpperCaseConverter''" "is_converter_class_name ''SlowConverter''"
  "is_converter_class_name ''PickyConverter''" "is_converter_class_name ''ShyConverter''"
  "\<not> is_converter_class_name ''Helper''" "\<not> is_converter_class_name ''_PrivateConverter''"
  by (simp_all add: is_converter_class_name_def suffix_to_prefix)




section \<open>Cells of a table\<close>

lemma col_index_present:
  "col \<in> set cs \<Longrightarrow> col_index col cs < length cs \<and> cs ! col_index col cs = col"
  by (induction cs) auto

lemma col_index_absent: "col \<notin> set cs \<Longrightarrow> col_index col cs = length cs"
  by (induction cs) auto

lemma col_index_append:
  "col_index col (cs @ ds) =
     (if col \<in> set cs then col_index col cs else length cs + col_index col ds)"
  by (induction cs) auto

lemma col_index_inj:
  "c \<in> set cs \<Longrightarrow> c' \<in> set cs \<Longrightarrow> col_index c cs = col_index c' cs \<Longrightarrow> c = c'"
  using col_index_present by metis

lemma columns_loc_set:
  "columns (loc_set df idx col v) =
     (if col \<in> set (columns df) then columns df else columns df @ [col])"
  by (simp add: loc_set_def Let_def)

lemma length_rows_loc_set:
  "idx < length (rows df) \<Longrightarrow> length (rows (loc_set df idx col v)) = length (rows df)"
  by (simp add: loc_set_def Let_def)

lemma rectangular_loc_set:
  assumes "rectangular df" and "idx < length (rows df)"
  shows "rectangular (loc_set df idx col v)"
  using assms
  by (auto simp: rectangular_def loc_set_def Let_def list_all_iff dest!: set_update_subset_insert [THEN subsetD])

lemma cell_at_loc_set_same:
  assumes "rectangular df" and "idx < length (rows df)"
  shows "cell_at (loc_set df idx col v) idx col = v"
proof (cases "col \<in> set (columns df)")
  case True
  with assms have "col_index col (columns df) < length (rows df ! idx)"
    by (auto simp: rectangular_def list_all_iff col_index_present)
  with True assms show ?thesis
    by (simp add: cell_at_def loc_set_def Let_def)
next
  case False
  with assms have "length (rows df ! idx) = length (columns df)"
    by (auto simp: rectangular_def list_all_iff)
  with False assms show ?thesis
    by (simp add: cell_at_def loc_set_def Let_def col_index_append col_index_absent)
qed

lemma cell_at_loc_set_other:
  assumes "rectangular df" and "idx < length (rows df)" and "i < length (rows df)"
    and "c \<in> set (columns df)" and "i \<noteq> idx \<or> c \<noteq> col"
  shows "cell_at (loc_set df idx col v) i c = cell_at df i c"
proof (cases "col \<in> set (columns df)")
  case True
  show ?thesis
  proof (cases "i = idx")
    case True
    with assms(5) have "c \<noteq> col" by simp
    with assms(4) \<open>col \<in> set (columns df)\<close>
    have "col_index c (columns df) \<noteq> col_index col (columns df)"
      using col_index_inj by metis
    with True \<open>col \<in> set (columns df)\<close> assms(2) show ?thesis
      by (simp add: cell_at_def loc_set_def Let_def)
  next
    case False
    with \<open>col \<in> set (columns df)\<close> assms(2,3) show ?thesis
      by (simp add: cell_at_def loc_set_def Let_def)
  qed
next
  case False
  from assms(1,3) have len: "length (rows df ! i) = length (columns df)"
    by (auto simp: rectangular_def list_all_iff)
  from assms(4) have lt: "col_index c (columns df) < length (columns df)"
    by (simp add: col_index_present)
  from False assms(4) have ne: "c \<noteq> col" by auto
  show ?thesis
  proof (cases "i = idx")
    case True
    with False assms(2,4) len lt show ?thesis
      by (simp add: cell_at_def loc_set_def Let_def col_index_append col_index_absent
          nth_append)
  next
    case False
    with \<open>col \<notin> set (columns df)\<close> assms(2,3,4) len lt show ?thesis
      by (simp add: cell_at_def loc_set_def Let_def col_index_append nth_append)
  qed
qed

lemma cell_at_loc_set_new:
  assumes "rectangular df" and "idx < length (rows df)" and "i < length (rows df)"
    and "col \<notin> set (columns df)" and "i \<noteq> idx"
  shows "cell_at (loc_set df idx col v) i col = NaN"
proof -
  from assms(1,3) have len: "length (rows df ! i) = length (columns df)"
    by (auto simp: rectangular_def list_all_iff)
  with assms show ?thesis
    by (simp add: cell_at_def loc_set_def Let_def col_index_append col_index_absent
        nth_append)
qed

section \<open>The inner loop of the batch processor\<close>

lemma run_converters_step:
  "run_converters E ((n, c) # rest) idx p (res, calls) =
     (case written_cell E c p of
        None \<Rightarrow> None
      | Some v \<Rightarrow>
          run_converters E rest idx p (loc_set res idx (n @ ''_output'') v, calls @ [(idx, n)]))"
  by (simp add: written_cell_def split: option.splits sum.splits)

lemma output_columns_Cons:
  "output_columns ((n, c) # rest) = (n @ ''_output'') # output_columns rest"
  by (simp add: output_columns_def)

lemma output_column_mem:
  "(n @ ''_output'') \<in> set (output_columns cs) \<longleftrightarrow> n \<in> fst ` set cs"
  by (force simp: output_columns_def)

lemma run_converters_shape:
  "run_converters E cs idx p (res, calls) = Some (res', calls') \<Longrightarrow>
   rectangular res \<Longrightarrow> idx < length (rows res) \<Longrightarrow>
     rectangular res' \<and> length (rows res') = length (rows res)
     \<and> calls' = calls @ map (\<lambda>(n, c). (idx, n)) cs"
proof (induction cs arbitrary: res calls)
  case Nil
  then show ?case by simp
next
  case (Cons a cs)
  obtain n c where a: "a = (n, c)" by (cases a)
  from Cons.prems(1) obtain v where v: "written_cell E c p = Some v"
    and run: "run_converters E cs idx p
        (loc_set res idx (n @ ''_output'') v, calls @ [(idx, n)]) = Some (res', calls')"
    unfolding a by (auto simp: run_converters_step simp del: run_converters.simps split: option.splits)
  from Cons.prems(2,3) have "rectangular (loc_set res idx (n @ ''_output'') v)"
    and "idx < length (rows (loc_set res idx (n @ ''_output'') v))"
    by (simp_all add: rectangular_loc_set length_rows_loc_set)
  from Cons.IH [OF run this] Cons.prems(3) show ?case
    unfolding a by (simp add: length_rows_loc_set)
qed

lemma run_converters_columns:
  "run_converters E cs idx p (res, calls) = Some (res', calls') \<Longrightarrow>
   distinct (map fst cs) \<Longrightarrow>
     columns res' =
       columns res @ filter (\<lambda>c. c \<notin> set (columns res)) (output_columns cs)"
proof (induction cs arbitrary: res calls)
  case Nil
  then show ?case by (simp add: output_columns_def)
next
  case (Cons a cs)
  obtain n c where a: "a = (n, c)" by (cases a)
  from Cons.prems(1) obtain v where v: "written_cell E c p = Some v"
    and run: "run_converters E cs idx p
        (loc_set res idx (n @ ''_output'') v, calls @ [(idx, n)]) = Some (res', calls')"
    unfolding a by (auto simp: run_converters_step simp del: run_converters.simps split: option.splits)
  from Cons.prems(2) have d: "distinct (map fst cs)" and fresh: "n \<notin> fst ` set cs"
    unfolding a by auto
  from fresh have out: "(n @ ''_output'') \<notin> set (output_columns cs)"
    by (simp add: output_column_mem)
  then have same: "filter (\<lambda>c. c \<notin> set (columns (loc_set res idx (n @ ''_output'') v)))
      (output_columns cs) = filter (\<lambda>c. c \<notin> set (columns res)) (output_columns cs)"
    by (intro filter_cong) (auto simp: columns_loc_set)
  from Cons.IH [OF run d] same show ?case
    unfolding a by (simp add: columns_loc_set output_columns_Cons)
qed

lemma run_converters_frame:
  "run_converters E cs idx p (res, calls) = Some (res', calls') \<Longrightarrow>
   rectangular res \<Longrightarrow> idx < length (rows res) \<Longrightarrow> i < length (rows res) \<Longrightarrow>
   col \<in> set (columns res) \<Longrightarrow> i \<noteq> idx \<or> col \<notin> set (output_columns cs) \<Longrightarrow>
     cell_at res' i col = cell_at res i col"
proof (induction cs arbitrary: res calls)
  case Nil
  then show ?case by simp
next
  case (Cons a cs)
  obtain n c where a: "a = (n, c)" by (cases a)
  let ?res1 = "loc_set res idx (n @ ''_output'') v"
  from Cons.prems(1) obtain v where v: "written_cell E c p = Some v"
    and run: "run_converters E cs idx p
        (loc_set res idx (n @ ''_output'') v, calls @ [(idx, n)]) = Some (res', calls')"
    unfolding a by (auto simp: run_converters_step simp del: run_converters.simps split: option.splits)
  from Cons.prems(2,3,4) have r: "rectangular (loc_set res idx (n @ ''_output'') v)"
    and l: "idx < length (rows (loc_set res idx (n @ ''_output'') v))"
    and l': "i < length (rows (loc_set res idx (n @ ''_output'') v))"
    by (simp_all add: rectangular_loc_set length_rows_loc_set)
  from Cons.prems(5) have m: "col \<in> set (columns (loc_set res idx (n @ ''_output'') v))"
    by (simp add: columns_loc_set)
  from Cons.prems(6) have o: "i \<noteq> idx \<or> col \<notin> set (output_columns cs)"
    and o': "i \<noteq> idx \<or> col \<noteq> n @ ''_output''"
    unfolding a by (auto simp: output_columns_Cons)
  from Cons.IH [OF run r l l' m o]
  have "cell_at res' i col = cell_at (loc_set res idx (n @ ''_output'') v) i col" .
  also from Cons.prems(2,3,4,5) o'
  have "\<dots> = cell_at res i col" by (rule cell_at_loc_set_other)
  finally show ?case .
qed

lemma run_converters_new:
  "run_converters E cs idx p (res, calls) = Some (res', calls') \<Longrightarrow>
   rectangular res \<Longrightarrow> idx < length (rows res) \<Longrightarrow> i < length (rows res) \<Longrightarrow>
   col \<in> set (columns res') \<Longrightarrow> col \<notin> set (columns res) \<Longrightarrow> i \<noteq> idx \<Longrightarrow>
     cell_at res' i col = NaN"
proof (induction cs arbitrary: res calls)
  case Nil
  then show ?case by simp
next
  case (Cons a cs)
  obtain n c where a: "a = (n, c)" by (cases a)
  from Cons.prems(1) obtain v where v: "written_cell E c p = Some v"
    and run: "run_converters E cs idx p
        (loc_set res idx (n @ ''_output'') v, calls @ [(idx, n)]) = Some (res', calls')"
    unfolding a by (auto simp: run_converters_step simp del: run_converters.simps split: option.splits)
  from Cons.prems(2,3,4) have r: "rectangular (loc_set res idx (n @ ''_output'') v)"
    and l: "idx < length (rows (loc_set res idx (n @ ''_output'') v))"
    and l': "i < length (rows (loc_set res idx (n @ ''_output'') v))"
    by (simp_all add: rectangular_loc_set length_rows_loc_set)
  show ?case
  proof (cases "col \<in> set (columns (loc_set res idx (n @ ''_output'') v))")
    case True
    with Cons.prems(6) have col: "col = n @ ''_output''"
      by (auto simp: columns_loc_set split: if_splits)
    from run r l l' True Cons.prems(7)
    have "cell_at res' i col = cell_at (loc_set res idx (n @ ''_output'') v) i col"
      by (auto intro: run_converters_frame)
    also from Cons.prems(2,3,4,6,7) have "\<dots> = NaN"
      unfolding col by (simp add: cell_at_loc_set_new)
    finally show ?thesis .
  next
    case False
    from Cons.IH [OF run r l l' Cons.prems(5) False Cons.prems(7)] show ?thesis .
  qed
qed

lemma run_converters_written:
  "run_converters E cs idx p (res, calls) = Some (res', calls') \<Longrightarrow>
   rectangular res \<Longrightarrow> idx < length (rows res) \<Longrightarrow> distinct (map fst cs) \<Longrightarrow>
   (n, c) \<in> set cs \<Longrightarrow>
     written_cell E c p = Some (cell_at res' idx (n @ ''_output''))"
proof (induction cs arbitrary: res calls)
  case Nil
  then show ?case by simp
next
  case (Cons a cs)
  obtain n' c' where a: "a = (n', c')" by (cases a)
  from Cons.prems(1) obtain v where v: "written_cell E c' p = Some v"
    and run: "run_converters E cs idx p
        (loc_set res idx (n' @ ''_output'') v, calls @ [(idx, n')]) = Some (res', calls')"
    unfolding a by (auto simp: run_converters_step simp del: run_converters.simps split: option.splits)
  from Cons.prems(2,3) have r: "rectangular (loc_set res idx (n' @ ''_output'') v)"
    and l: "idx < length (rows (loc_set res idx (n' @ ''_output'') v))"
    by (simp_all add: rectangular_loc_set length_rows_loc_set)
  from Cons.prems(4) have d: "distinct (map fst cs)" and fresh: "n' \<notin> fst ` set cs"
    unfolding a by auto
  show ?case
  proof (cases "(n, c) \<in> set cs")
    case True
    from Cons.IH [OF run r l d True] show ?thesis .
  next
    case False
    with Cons.prems(5) have eq: "n = n'" "c = c'" unfolding a by auto
    from fresh have out: "(n' @ ''_output'') \<notin> set (output_columns cs)"
      by (simp add: output_column_mem)
    have "n' @ ''_output'' \<in> set (columns (loc_set res idx (n' @ ''_output'') v))"
      by (simp add: columns_loc_set)
    with run r l out
    have "cell_at res' idx (n' @ ''_output'') =
        cell_at (loc_set res idx (n' @ ''_output'') v) idx (n' @ ''_output'')"
      by (auto intro: run_converters_frame)
    also from Cons.prems(2,3) have "\<dots> = v" by (rule cell_at_loc_set_same)
    finally show ?thesis using v eq by simp
  qed
qed

lemma run_converters_returns:
  "\<forall>(n, c)\<in>set cs. written_cell E c p \<noteq> None \<Longrightarrow>
     \<exists>st'. run_converters E cs idx p st = Some st'"
proof (induction cs arbitrary: st)
  case Nil
  then show ?case by simp
next
  case (Cons a cs)
  obtain n c where a: "a = (n, c)" by (cases a)
  obtain res calls where st: "st = (res, calls)" by (cases st)
  from Cons.prems obtain v where v: "written_cell E c p = Some v"
    unfolding a by auto
  from Cons.prems have "\<forall>(n, c)\<in>set cs. written_cell E c p \<noteq> None" by simp
  from Cons.IH [OF this] v show ?case
    unfolding a st by (simp add: run_converters_step del: run_converters.simps)
qed

section \<open>The outer loop of the batch processor\<close>

lemma run_converters_columns_mono:
  "run_converters E cs idx p (res, calls) = Some (res', calls') \<Longrightarrow>
     set (columns res) \<subseteq> set (columns res')"
proof (induction cs arbitrary: res calls)
  case Nil
  then show ?case by simp
next
  case (Cons a cs)
  obtain n c where a: "a = (n, c)" by (cases a)
  from Cons.prems obtain v where
    "run_converters E cs idx p
       (loc_set res idx (n @ ''_output'') v, calls @ [(idx, n)]) = Some (res', calls')"
    unfolding a
    by (auto simp: run_converters_step simp del: run_converters.simps split: option.splits)
  from Cons.IH [OF this] show ?case by (auto simp: columns_loc_set split: if_splits)
qed

lemma process_rows_skipped:
  "skipped (cell_at df idx pc) \<Longrightarrow>
     process_rows E cs df pc (idx # idxs) st = process_rows E cs df pc idxs st"
  by simp

lemma process_rows_ConsE:
  assumes "process_rows E cs df pc (idx # idxs) st = Some st'"
    and "\<not> skipped (cell_at df idx pc)"
  obtains st1 where "run_converters E cs idx (str_of (cell_at df idx pc)) st = Some st1"
    and "process_rows E cs df pc idxs st1 = Some st'"
  using assms by (auto simp: Let_def split: option.splits)

lemma output_columns_present:
  assumes "columns res1 = columns res @ filter (\<lambda>c. c \<notin> set (columns res)) (output_columns cs)"
  shows "set (output_columns cs) \<subseteq> set (columns res1)"
  using assms by auto

lemma process_rows_shape:
  "process_rows E cs df pc idxs (res, calls) = Some (res', calls') \<Longrightarrow>
   rectangular res \<Longrightarrow> \<forall>i\<in>set idxs. i < length (rows res) \<Longrightarrow>
     rectangular res' \<and> length (rows res') = length (rows res)
     \<and> calls' = calls @ concat (map (\<lambda>i. map (\<lambda>(n, c). (i, n)) cs)
                   (filter (\<lambda>i. \<not> skipped (cell_at df i pc)) idxs))"
proof (induction idxs arbitrary: res calls)
  case Nil
  then show ?case by simp
next
  case (Cons idx idxs)
  show ?case
  proof (cases "skipped (cell_at df idx pc)")
    case True
    with Cons.prems(1) have "process_rows E cs df pc idxs (res, calls) = Some (res', calls')"
      by simp
    from Cons.IH [OF this Cons.prems(2)] Cons.prems(3) True show ?thesis by simp
  next
    case False
    from Cons.prems(1) False obtain st1
      where run: "run_converters E cs idx (str_of (cell_at df idx pc)) (res, calls) = Some st1"
        and rest: "process_rows E cs df pc idxs st1 = Some (res', calls')"
      by (rule process_rows_ConsE)
    obtain res1 calls1 where st1: "st1 = (res1, calls1)" by (cases st1)
    from Cons.prems(3) have idx: "idx < length (rows res)" by simp
    from run_converters_shape [OF run [unfolded st1] Cons.prems(2) idx]
    have r: "rectangular res1" and l: "length (rows res1) = length (rows res)"
      and c: "calls1 = calls @ map (\<lambda>(n, c). (idx, n)) cs"
      by simp_all
    from Cons.prems(3) l have "\<forall>i\<in>set idxs. i < length (rows res1)" by simp
    from Cons.IH [OF rest [unfolded st1] r this] l c False show ?thesis by simp
  qed
qed

lemma process_rows_columns:
  "process_rows E cs df pc idxs (res, calls) = Some (res', calls') \<Longrightarrow>
   distinct (map fst cs) \<Longrightarrow>
     columns res' =
       (if \<exists>i\<in>set idxs. \<not> skipped (cell_at df i pc)
        then columns res @ filter (\<lambda>c. c \<notin> set (columns res)) (output_columns cs)
        else columns res)"
proof (induction idxs arbitrary: res calls)
  case Nil
  then show ?case by simp
next
  case (Cons idx idxs)
  show ?case
  proof (cases "skipped (cell_at df idx pc)")
    case True
    with Cons.prems(1) have "process_rows E cs df pc idxs (res, calls) = Some (res', calls')"
      by simp
    from Cons.IH [OF this Cons.prems(2)] True show ?thesis by simp
  next
    case False
    from Cons.prems(1) False obtain st1
      where run: "run_converters E cs idx (str_of (cell_at df idx pc)) (res, calls) = Some st1"
        and rest: "process_rows E cs df pc idxs st1 = Some (res', calls')"
      by (rule process_rows_ConsE)
    obtain res1 calls1 where st1: "st1 = (res1, calls1)" by (cases st1)
    from run_converters_columns [OF run [unfolded st1] Cons.prems(2)]
    have c1: "columns res1 =
        columns res @ filter (\<lambda>c. c \<notin> set (columns res)) (output_columns cs)" .
    then have "set (output_columns cs) \<subseteq> set (columns res1)"
      by (rule output_columns_present)
    then have none: "filter (\<lambda>c. c \<notin> set (columns res1)) (output_columns cs) = []"
      by (auto simp: filter_empty_conv)
    from Cons.IH [OF rest [unfolded st1] Cons.prems(2)] none
    have "columns res' = columns res1" by simp
    with c1 False show ?thesis by auto
  qed
qed

lemma process_rows_frame:
  "process_rows E cs df pc idxs (res, calls) = Some (res', calls') \<Longrightarrow>
   rectangular res \<Longrightarrow> \<forall>i\<in>set idxs. i < length (rows res) \<Longrightarrow> i < length (rows res) \<Longrightarrow>
   col \<in> set (columns res) \<Longrightarrow>
   i \<notin> set idxs \<or> skipped (cell_at df i pc) \<or> col \<notin> set (output_columns cs) \<Longrightarrow>
     cell_at res' i col = cell_at res i col"
proof (induction idxs arbitrary: res calls)
  case Nil
  then show ?case by simp
next
  case (Cons idx idxs)
  from Cons.prems(6)
  have cond: "i \<notin> set idxs \<or> skipped (cell_at df i pc) \<or> col \<notin> set (output_columns cs)"
    by auto
  show ?case
  proof (cases "skipped (cell_at df idx pc)")
    case True
    with Cons.prems(1) have "process_rows E cs df pc idxs (res, calls) = Some (res', calls')"
      by simp
    from Cons.IH [OF this Cons.prems(2) _ Cons.prems(4,5) cond] Cons.prems(3)
    show ?thesis by simp
  next
    case False
    from Cons.prems(1) False obtain st1
      where run: "run_converters E cs idx (str_of (cell_at df idx pc)) (res, calls) = Some st1"
        and rest: "process_rows E cs df pc idxs st1 = Some (res', calls')"
      by (rule process_rows_ConsE)
    obtain res1 calls1 where st1: "st1 = (res1, calls1)" by (cases st1)
    from Cons.prems(3) have idx: "idx < length (rows res)" by simp
    from run_converters_shape [OF run [unfolded st1] Cons.prems(2) idx]
    have r: "rectangular res1" and l: "length (rows res1) = length (rows res)"
      by simp_all
    from Cons.prems(3) l have b: "\<forall>i\<in>set idxs. i < length (rows res1)" by simp
    from Cons.prems(4) l have i: "i < length (rows res1)" by simp
    from False Cons.prems(6) have o: "i \<noteq> idx \<or> col \<notin> set (output_columns cs)"
      by auto
    have step: "cell_at res1 i col = cell_at res i col"
      using run [unfolded st1] Cons.prems(2) idx Cons.prems(4,5) o
      by (rule run_converters_frame)
    from run_converters_columns_mono [OF run [unfolded st1]] Cons.prems(5)
    have mem: "col \<in> set (columns res1)" by auto
    from Cons.IH [OF rest [unfolded st1] r b i mem cond] step show ?thesis by simp
  qed
qed

lemma process_rows_columns_mono:
  "process_rows E cs df pc idxs (res, calls) = Some (res', calls') \<Longrightarrow>
     set (columns res) \<subseteq> set (columns res')"
proof (induction idxs arbitrary: res calls)
  case Nil
  then show ?case by simp
next
  case (Cons idx idxs)
  show ?case
  proof (cases "skipped (cell_at df idx pc)")
    case True
    with Cons.prems have "process_rows E cs df pc idxs (res, calls) = Some (res', calls')"
      by simp
    then show ?thesis by (rule Cons.IH)
  next
    case False
    from Cons.prems False obtain st1
      where run: "run_converters E cs idx (str_of (cell_at df idx pc)) (res, calls) = Some st1"
        and rest: "process_rows E cs df pc idxs st1 = Some (res', calls')"
      by (rule process_rows_ConsE)
    obtain res1 calls1 where st1: "st1 = (res1, calls1)" by (cases st1)
    from run_converters_columns_mono [OF run [unfolded st1]]
      Cons.IH [OF rest [unfolded st1]]
    show ?thesis by blast
  qed
qed

lemma process_rows_new:
  "process_rows E cs df pc idxs (res, calls) = Some (res', calls') \<Longrightarrow>
   rectangular res \<Longrightarrow> \<forall>i\<in>set idxs. i < length (rows res) \<Longrightarrow> i < length (rows res) \<Longrightarrow>
   col \<in> set (columns res') \<Longrightarrow> col \<notin> set (columns res) \<Longrightarrow>
   i \<notin> set idxs \<or> skipped (cell_at df i pc) \<Longrightarrow>
     cell_at res' i col = NaN"
proof (induction idxs arbitrary: res calls)
  case Nil
  then show ?case by simp
next
  case (Cons idx idxs)
  from Cons.prems(7) have cond: "i \<notin> set idxs \<or> skipped (cell_at df i pc)" by auto
  show ?case
  proof (cases "skipped (cell_at df idx pc)")
    case True
    with Cons.prems(1) have "process_rows E cs df pc idxs (res, calls) = Some (res', calls')"
      by simp
    from Cons.IH [OF this Cons.prems(2) _ Cons.prems(4,5,6) cond] Cons.prems(3)
    show ?thesis by simp
  next
    case False
    from Cons.prems(1) False obtain st1
      where run: "run_converters E cs idx (str_of (cell_at df idx pc)) (res, calls) = Some st1"
        and rest: "process_rows E cs df pc idxs st1 = Some (res', calls')"
      by (rule process_rows_ConsE)
    obtain res1 calls1 where st1: "st1 = (res1, calls1)" by (cases st1)
    from Cons.prems(3) have idx: "idx < length (rows res)" by simp
    from run_converters_shape [OF run [unfolded st1] Cons.prems(2) idx]
    have r: "rectangular res1" and l: "length (rows res1) = length (rows res)"
      by simp_all
    from Cons.prems(3) l have b: "\<forall>i\<in>set idxs. i < length (rows res1)" by simp
    from Cons.prems(4) l have i: "i < length (rows res1)" by simp
    from False Cons.prems(7) have ne: "i \<noteq> idx" by auto
    show ?thesis
    proof (cases "col \<in> set (columns res1)")
      case True
      from cond have "i \<notin> set idxs \<or> skipped (cell_at df i pc)
          \<or> col \<notin> set (output_columns cs)" by auto
      from process_rows_frame [OF rest [unfolded st1] r b i True this]
      have "cell_at res' i col = cell_at res1 i col" .
      also from run [unfolded st1] Cons.prems(2) idx Cons.prems(4) True Cons.prems(6) ne
      have "\<dots> = NaN" by (rule run_converters_new)
      finally show ?thesis .
    next
      case False
      from Cons.IH [OF rest [unfolded st1] r b i Cons.prems(5) False cond] show ?thesis .
    qed
  qed
qed

lemma process_rows_written:
  "process_rows E cs df pc idxs (res, calls) = Some (res', calls') \<Longrightarrow>
   rectangular res \<Longrightarrow> \<forall>i\<in>set idxs. i < length (rows res) \<Longrightarrow> distinct idxs \<Longrightarrow>
   distinct (map fst cs) \<Longrightarrow> i \<in> set idxs \<Longrightarrow> \<not> skipped (cell_at df i pc) \<Longrightarrow>
   (n, c) \<in> set cs \<Longrightarrow>
     written_cell E c (str_of (cell_at df i pc)) = Some (cell_at res' i (n @ ''_output''))"
proof (induction idxs arbitrary: res calls)
  case Nil
  then show ?case by simp
next
  case (Cons idx idxs)
  show ?case
  proof (cases "skipped (cell_at df idx pc)")
    case True
    with Cons.prems(1) have rest: "process_rows E cs df pc idxs (res, calls) = Some (res', calls')"
      by simp
    from True Cons.prems(6,7) have "i \<in> set idxs" by auto
    with Cons.IH [OF rest Cons.prems(2) _ _ Cons.prems(5) _ Cons.prems(7,8)] Cons.prems(3,4)
    show ?thesis by simp
  next
    case False
    from Cons.prems(1) False obtain st1
      where run: "run_converters E cs idx (str_of (cell_at df idx pc)) (res, calls) = Some st1"
        and rest: "process_rows E cs df pc idxs st1 = Some (res', calls')"
      by (rule process_rows_ConsE)
    obtain res1 calls1 where st1: "st1 = (res1, calls1)" by (cases st1)
    from Cons.prems(3) have idx: "idx < length (rows res)" by simp
    from run_converters_shape [OF run [unfolded st1] Cons.prems(2) idx]
    have r: "rectangular res1" and l: "length (rows res1) = length (rows res)"
      by simp_all
    from Cons.prems(3) l have b: "\<forall>i\<in>set idxs. i < length (rows res1)" by simp
    from Cons.prems(4) have d: "distinct idxs" and fresh: "idx \<notin> set idxs" by auto
    show ?thesis
    proof (cases "i = idx")
      case True
      from run_converters_written [OF run [unfolded st1] Cons.prems(2) idx Cons.prems(5,8)]
      have w: "written_cell E c (str_of (cell_at df idx pc)) =
          Some (cell_at res1 idx (n @ ''_output''))" .
      from Cons.prems(8) have "n @ ''_output'' \<in> set (output_columns cs)"
        by (force simp: output_columns_def)
      with run_converters_columns [OF run [unfolded st1] Cons.prems(5)]
      have mem: "n @ ''_output'' \<in> set (columns res1)" by auto
      from idx l have i1: "idx < length (rows res1)" by simp
      from fresh have "idx \<notin> set idxs \<or> skipped (cell_at df idx pc)
          \<or> n @ ''_output'' \<notin> set (output_columns cs)" by simp
      from process_rows_frame [OF rest [unfolded st1] r b i1 mem this] w True
      show ?thesis by simp
    next
      case False
      with Cons.prems(6) have "i \<in> set idxs" by simp
      from Cons.IH [OF rest [unfolded st1] r b d Cons.prems(5) this Cons.prems(7,8)]
      show ?thesis .
    qed
  qed
qed

lemma process_rows_returns:
  "\<forall>i\<in>set idxs. \<not> skipped (cell_at df i pc) \<longrightarrow>
      (\<forall>(n, c)\<in>set cs. written_cell E c (str_of (cell_at df i pc)) \<noteq> None) \<Longrightarrow>
     \<exists>st'. process_rows E cs df pc idxs st = Some st'"
proof (induction idxs arbitrary: st)
  case Nil
  then show ?case by simp
next
  case (Cons idx idxs)
  from Cons.prems have rest: "\<forall>i\<in>set idxs. \<not> skipped (cell_at df i pc) \<longrightarrow>
      (\<forall>(n, c)\<in>set cs. written_cell E c (str_of (cell_at df i pc)) \<noteq> None)"
    by simp
  show ?case
  proof (cases "skipped (cell_at df idx pc)")
    case True
    with Cons.IH [OF rest] show ?thesis by simp
  next
    case False
    with Cons.prems
    have "\<forall>(n, c)\<in>set cs. written_cell E c (str_of (cell_at df idx pc)) \<noteq> None"
      by simp
    then obtain st1
      where "run_converters E cs idx (str_of (cell_at df idx pc)) st = Some st1"
      using run_converters_returns by blast
    with Cons.IH [OF rest, of st1] False show ?thesis by (simp add: Let_def)
  qed
qed

section \<open>The example ledgers and the example table\<close>

lemma verdict_fussy: "class_verdict demo ''FussyConverter'' ''Fussy'' = Works ''fussy''"
  by (simp add: class_verdict_def try_instantiate_def patterns_def demo_def
      demo_construct_def demo_convert_def wait_for_def text_to_text_def)

lemma demo_ledger_converters:
  "text_to_text_converters demo_ledger = [(''UpperCaseConverter'', ''upper'')]"
proof -
  have names: "map stem (sort (converter_files [''a_converter.py''])) = [''a_converter'']"
    by (simp add: converter_files_def stem_def suffix_to_prefix)
  have a: "test_converter_module demo ''a_converter'' D =
      test_converter_class demo ''UpperCaseConverter'' ''Upper'' D" for D
    by (simp add: test_converter_module_def demo_def demo_import_def demo_class_names)
  have caps: "text_to_text demo ''upper''"
    by (simp add: text_to_text_def demo_def)
  show ?thesis
    by (simp add: demo_ledger_def discover_and_test_converters_def names a ledger_after_class
        verdict_upper caps new_discovery_def)
qed

lemma fussy_ledger_converters:
  "text_to_text_converters fussy_ledger =
     [(''UpperCaseConverter'', ''upper''), (''FussyConverter'', ''fussy'')]"
proof -
  have names: "map stem (sort (converter_files [''fussy_converter.py'', ''a_converter.py''])) =
      [''a_converter'', ''fussy_converter'']"
    by (simp add: converter_files_def stem_def suffix_to_prefix)
  have a: "test_converter_module demo ''a_converter'' D =
      test_converter_class demo ''UpperCaseConverter'' ''Upper'' D" for D
    by (simp add: test_converter_module_def demo_def demo_import_def demo_class_names)
  have f: "test_converter_module demo ''fussy_converter'' D =
      test_converter_class demo ''FussyConverter'' ''Fussy'' D" for D
    by (simp add: test_converter_module_def demo_def demo_import_def
        is_converter_class_name_def suffix_to_prefix)
  have caps: "text_to_text demo ''upper''" "text_to_text demo ''fussy''"
    by (simp_all add: text_to_text_def demo_def)
  show ?thesis
    by (simp add: fussy_ledger_def discover_and_test_converters_def names a f
        ledger_after_class verdict_upper verdict_fussy caps new_discovery_def)
qed

lemma written_upper: "written_cell demo ''upper'' p = Some (Str (upper p))"
  by (simp add: written_cell_def await_def demo_def demo_convert_def)

lemma upper_hi: "upper ''hi'' = ''HI''" "upper ''go'' = ''GO''"
  by (simp_all add: upper_def upper_char_def)

lemma skipped_demo:
  "\<not> skipped (Str ''hi'')" "skipped (Str '''')" "\<not> skipped (Str ''go'')" "skipped NaN"
  by (simp_all add: skipped_def isna_def str_of_def strip_def isspace_def)

lemma demo_batch_run:
  "process_rows demo [(''UpperCaseConverter'', ''upper'')] demo_table ''prompt'' [0, 1, 2]
     (demo_table, []) =
   Some (\<lparr>columns = [''prompt'', ''UpperCaseConverter_output''],
          rows = [[Str ''hi'', Str ''HI''], [Str '''', NaN], [Str ''go'', Str ''GO'']]\<rparr>,
         [(0, ''UpperCaseConverter''), (2, ''UpperCaseConverter'')])"
  by (simp add: demo_table_def cell_at_def skipped_demo str_of_def run_converters_step
      written_upper upper_hi loc_set_def Let_def del: run_converters.simps(2))

section \<open>The row cap\<close>

text \<open>
  Claim C10. A row cap of 0 leaves the table as it is, the run with the cap 0 is the run
  with no cap, and it passes over every row of the input. A positive cap keeps the first
  \<open>max_rows\<close> rows. The table is truncated only for a cap that is given and is not 0.
\<close>

theorem zero_row_cap_disables_cap:
  "capped df (Some 0) = df
   \<and> process_excel E D input prompt_column (Some 0) =
       process_excel E D input prompt_column None
   \<and> (prompt_column \<in> set (columns df) \<longrightarrow>
        process_excel E D (Some df) prompt_column (Some 0) =
          map_option Inr
            (process_rows E (text_to_text_converters D) df prompt_column
               [0..<length (rows df)] (df, [])))
   \<and> (\<forall>n. 0 < n \<longrightarrow> capped df (Some n) = df\<lparr>rows := take (nat n) (rows df)\<rparr>)
   \<and> (\<forall>max_rows. capped df max_rows \<noteq> df \<longrightarrow> (\<exists>n. max_rows = Some n \<and> n \<noteq> 0))"
proof (intro conjI allI impI)
  show "capped df (Some 0) = df" by (simp add: capped_def)
  show "process_excel E D input prompt_column (Some 0) =
       process_excel E D input prompt_column None"
    by (cases input) (simp_all add: process_excel_def capped_def)
  show "process_excel E D (Some df) prompt_column (Some 0) =
          map_option Inr
            (process_rows E (text_to_text_converters D) df prompt_column
               [0..<length (rows df)] (df, []))"
    if "prompt_column \<in> set (columns df)"
    using that by (simp add: process_excel_def capped_def)
  show "capped df (Some n) = df\<lparr>rows := take (nat n) (rows df)\<rparr>" if "0 < n" for n
    using that by (simp add: capped_def head_def)
  show "\<exists>n. max_rows = Some n \<and> n \<noteq> 0" if "capped df max_rows \<noteq> df" for max_rows
    using that by (cases max_rows) (auto simp: capped_def)
qed

text \<open>
  The example table with the cap 0: all three rows are passed over, and the two rows with
  a prompt are converted. With the cap 2 the table has its first two rows.
\<close>

theorem zero_row_cap_disables_cap_witness:
  "process_excel demo demo_ledger (Some demo_table) ''prompt'' (Some 0) =
     Some (Inr (\<lparr>columns = [''prompt'', ''UpperCaseConverter_output''],
                 rows = [[Str ''hi'', Str ''HI''], [Str '''', NaN], [Str ''go'', Str ''GO'']]\<rparr>,
                [(0, ''UpperCaseConverter''), (2, ''UpperCaseConverter'')]))
   \<and> capped demo_table (Some 2) =
       \<lparr>columns = [''prompt''], rows = [[Str ''hi''], [Str '''']]\<rparr>
   \<and> (\<exists>n. Some (2 :: int) = Some n \<and> n \<noteq> 0)"
proof -
  note cap = zero_row_cap_disables_cap [of demo_table demo demo_ledger "Some demo_table"
      "''prompt''"]
  have col: "''prompt'' \<in> set (columns demo_table)" by (simp add: demo_table_def)
  have rows: "[0..<length (rows demo_table)] = [0, 1, 2]"
    by (simp add: demo_table_def upt_rec)
  from cap [THEN conjunct2, THEN conjunct2, THEN conjunct1, rule_format, OF col]
  have 1: "process_excel demo demo_ledger (Some demo_table) ''prompt'' (Some 0) =
     Some (Inr (\<lparr>columns = [''prompt'', ''UpperCaseConverter_output''],
                 rows = [[Str ''hi'', Str ''HI''], [Str '''', NaN], [Str ''go'', Str ''GO'']]\<rparr>,
                [(0, ''UpperCaseConverter''), (2, ''UpperCaseConverter'')]))"
    by (simp only: rows demo_ledger_converters demo_batch_run option.map)
  have pos: "(0 :: int) < 2" by simp
  from cap [THEN conjunct2, THEN conjunct2, THEN conjunct2, THEN conjunct1, rule_format,
      OF pos]
  have 2: "capped demo_table (Some 2) =
       \<lparr>columns = [''prompt''], rows = [[Str ''hi''], [Str '''']]\<rparr>"
    by (simp add: demo_table_def)
  have "capped demo_table (Some 2) \<noteq> demo_table"
    unfolding 2 by (simp add: demo_table_def)
  from cap [THEN conjunct2, THEN conjunct2, THEN conjunct2, THEN conjunct2, rule_format,
      OF this]
  have 3: "\<exists>n. Some (2 :: int) = Some n \<and> n \<noteq> 0" .
  from 1 2 3 show ?thesis by blast
qed

section \<open>Rows without a prompt\<close>

lemma strip_empty: "strip s = [] \<longleftrightarrow> (\<forall>ch\<in>set s. isspace ch)"
proof -
  have "dropWhile isspace s = [] \<longleftrightarrow> (\<forall>ch\<in>set s. isspace ch)"
    by (simp add: dropWhile_eq_Nil_conv)
  moreover have "(\<forall>ch\<in>set (dropWhile isspace s). isspace ch) \<longleftrightarrow> dropWhile isspace s = []"
  proof
    assume all: "\<forall>ch\<in>set (dropWhile isspace s). isspace ch"
    show "dropWhile isspace s = []"
    proof (rule ccontr)
      assume ne: "dropWhile isspace s \<noteq> []"
      then have "\<not> isspace (hd (dropWhile isspace s))" by (rule hd_dropWhile)
      moreover from ne have "hd (dropWhile isspace s) \<in> set (dropWhile isspace s)" by simp
      ultimately show False using all by blast
    qed
  next
    assume "dropWhile isspace s = []"
    then show "\<forall>ch\<in>set (dropWhile isspace s). isspace ch"
      by (simp only: set_simps ball_empty)
  qed
  ultimately show ?thesis
    by (simp add: strip_def dropWhile_eq_Nil_conv)
qed

lemma skipped_blank: "skipped (Str s) \<longleftrightarrow> (\<forall>ch\<in>set s. isspace ch)"
  by (simp add: skipped_def isna_def str_of_def strip_empty)

lemma rectangular_capped: "rectangular df \<Longrightarrow> rectangular (capped df max_rows)"
  by (auto simp: rectangular_def capped_def head_def list_all_iff
      split: option.splits dest: in_set_takeD)

lemma columns_capped: "columns (capped df max_rows) = columns df"
  by (simp add: capped_def head_def split: option.splits)

lemma process_excel_rows:
  assumes "prompt_column \<in> set (columns df0)"
  shows "process_excel E D (Some df0) prompt_column max_rows = Some (Inr (res, calls)) \<longleftrightarrow>
     process_rows E (text_to_text_converters D) (capped df0 max_rows) prompt_column
       [0..<length (rows (capped df0 max_rows))] (capped df0 max_rows, []) = Some (res, calls)"
  using assms by (auto simp: process_excel_def Let_def)

text \<open>
  Claim C7. The outer loop passes over a row whose prompt is null, or is blank after
  trimming (all its characters are white space). In a run that returns, the conversions
  called are those of the rows with a prompt, in the order of the rows and of the
  ledger, so no plugin is called for a row without a prompt; and such a row is in the
  result as it is in the input, null in every column that the run has added. For the
  table of the prompts \<^verbatim>\<open>hi\<close>, blank and \<^verbatim>\<open>go\<close> and the upper-case converter, the
  first and the third row are converted to \<^verbatim>\<open>HI\<close> and \<^verbatim>\<open>GO\<close> and the second row is
  passed over.
\<close>

theorem rows_without_prompt_skipped:
  "(rectangular df0 \<and> prompt_column \<in> set (columns df0)
    \<and> process_excel E D (Some df0) prompt_column max_rows = Some (Inr (res, calls)) \<longrightarrow>
      calls = concat (map (\<lambda>i. map (\<lambda>(n, c). (i, n)) (text_to_text_converters D))
                (filter (\<lambda>i. \<not> skipped (cell_at (capped df0 max_rows) i prompt_column))
                   [0..<length (rows (capped df0 max_rows))]))
      \<and> length (rows res) = length (rows (capped df0 max_rows))
      \<and> (\<forall>i<length (rows (capped df0 max_rows)).
            skipped (cell_at (capped df0 max_rows) i prompt_column) \<longrightarrow>
            (\<forall>c\<in>set (columns df0). cell_at res i c = cell_at (capped df0 max_rows) i c)
            \<and> (\<forall>c\<in>set (columns res). c \<notin> set (columns df0) \<longrightarrow> cell_at res i c = NaN)))
   \<and> skipped NaN
   \<and> (\<forall>s. skipped (Str s) = (\<forall>ch\<in>set s. isspace ch))
   \<and> text_to_text_converters demo_ledger = [(''UpperCaseConverter'', ''upper'')]
   \<and> process_excel demo demo_ledger
        (Some \<lparr>columns = [''prompt''], rows = [[Str ''hi''], [Str ''''], [Str ''go'']]\<rparr>)
        ''prompt'' None =
      Some (Inr (\<lparr>columns = [''prompt'', ''UpperCaseConverter_output''],
                  rows = [[Str ''hi'', Str ''HI''], [Str '''', NaN], [Str ''go'', Str ''GO'']]\<rparr>,
                 [(0, ''UpperCaseConverter''), (2, ''UpperCaseConverter'')]))"
proof -
  let ?df = "capped df0 max_rows"
  let ?cs = "text_to_text_converters D"
  have general: "calls = concat (map (\<lambda>i. map (\<lambda>(n, c). (i, n)) ?cs)
                (filter (\<lambda>i. \<not> skipped (cell_at ?df i prompt_column))
                   [0..<length (rows ?df)]))
      \<and> length (rows res) = length (rows ?df)
      \<and> (\<forall>i<length (rows ?df).
            skipped (cell_at ?df i prompt_column) \<longrightarrow>
            (\<forall>c\<in>set (columns df0). cell_at res i c = cell_at ?df i c)
            \<and> (\<forall>c\<in>set (columns res). c \<notin> set (columns df0) \<longrightarrow> cell_at res i c = NaN))"
    if rect: "rectangular df0" and col: "prompt_column \<in> set (columns df0)"
      and run: "process_excel E D (Some df0) prompt_column max_rows = Some (Inr (res, calls))"
  proof -
    from run col have rows: "process_rows E ?cs ?df prompt_column [0..<length (rows ?df)]
        (?df, []) = Some (res, calls)"
      by (simp add: process_excel_rows)
    from rect have r: "rectangular ?df" by (rule rectangular_capped)
    have b: "\<forall>i\<in>set [0..<length (rows ?df)]. i < length (rows ?df)" by simp
    from process_rows_shape [OF rows r b]
    have 1: "calls = concat (map (\<lambda>i. map (\<lambda>(n, c). (i, n)) ?cs)
                (filter (\<lambda>i. \<not> skipped (cell_at ?df i prompt_column))
                   [0..<length (rows ?df)]))"
      and 2: "length (rows res) = length (rows ?df)"
      by simp_all
    have 3: "cell_at res i c = cell_at ?df i c"
      if "i < length (rows ?df)" "skipped (cell_at ?df i prompt_column)"
        "c \<in> set (columns df0)" for i c
    proof -
      from that(3) have "c \<in> set (columns ?df)" by (simp add: columns_capped)
      moreover from that(2) have "i \<notin> set [0..<length (rows ?df)]
          \<or> skipped (cell_at ?df i prompt_column) \<or> c \<notin> set (output_columns ?cs)"
        by simp
      ultimately show ?thesis
        using rows r b that(1) by (auto intro: process_rows_frame)
    qed
    have 4: "cell_at res i c = NaN"
      if "i < length (rows ?df)" "skipped (cell_at ?df i prompt_column)"
        "c \<in> set (columns res)" "c \<notin> set (columns df0)" for i c
    proof -
      from that(4) have "c \<notin> set (columns ?df)" by (simp add: columns_capped)
      moreover from that(2) have "i \<notin> set [0..<length (rows ?df)]
          \<or> skipped (cell_at ?df i prompt_column)"
        by simp
      ultimately show ?thesis
        using rows r b that(1,3) by (auto intro: process_rows_new)
    qed
    from 1 2 3 4 show ?thesis by blast
  qed
  have null: "skipped NaN" by (simp add: skipped_def isna_def)
  have blank: "\<forall>s. skipped (Str s) = (\<forall>ch\<in>set s. isspace ch)"
    by (simp add: skipped_blank)
  have rows: "[0..<length (rows demo_table)] = [0, 1, 2]"
    by (simp add: demo_table_def upt_rec)
  have cap: "capped demo_table None = demo_table" by (simp add: capped_def)
  have col: "''prompt'' \<in> set (columns demo_table)" by (simp add: demo_table_def)
  have "process_excel demo demo_ledger (Some demo_table) ''prompt'' None =
      Some (Inr (\<lparr>columns = [''prompt'', ''UpperCaseConverter_output''],
                  rows = [[Str ''hi'', Str ''HI''], [Str '''', NaN], [Str ''go'', Str ''GO'']]\<rparr>,
                 [(0, ''UpperCaseConverter''), (2, ''UpperCaseConverter'')]))"
    unfolding process_excel_rows [OF col] cap rows demo_ledger_converters
    by (rule demo_batch_run)
  then have scenario: "process_excel demo demo_ledger
        (Some \<lparr>columns = [''prompt''], rows = [[Str ''hi''], [Str ''''], [Str ''go'']]\<rparr>)
        ''prompt'' None =
      Some (Inr (\<lparr>columns = [''prompt'', ''UpperCaseConverter_output''],
                  rows = [[Str ''hi'', Str ''HI''], [Str '''', NaN], [Str ''go'', Str ''GO'']]\<rparr>,
                 [(0, ''UpperCaseConverter''), (2, ''UpperCaseConverter'')]))"
    by (simp add: demo_table_def)
  from general null blank demo_ledger_converters scenario show ?thesis by blast
qed

text \<open>
  In the run over the example table the second row has no prompt: it is in the result
  with its prompt as it was and with a null cell in the column of the converter.
\<close>

theorem rows_without_prompt_skipped_witness:
  "length (rows \<lparr>columns = [''prompt'', ''UpperCaseConverter_output''],
       rows = [[Str ''hi'', Str ''HI''], [Str '''', NaN], [Str ''go'', Str ''GO'']]\<rparr>) = 3
   \<and> cell_at \<lparr>columns = [''prompt'', ''UpperCaseConverter_output''],
       rows = [[Str ''hi'', Str ''HI''], [Str '''', NaN], [Str ''go'', Str ''GO'']]\<rparr>
       1 ''prompt'' = Str ''''
   \<and> cell_at \<lparr>columns = [''prompt'', ''UpperCaseConverter_output''],
       rows = [[Str ''hi'', Str ''HI''], [Str '''', NaN], [Str ''go'', Str ''GO'']]\<rparr>
       1 ''UpperCaseConverter_output'' = NaN"
proof -
  let ?res = "\<lparr>columns = [''prompt'', ''UpperCaseConverter_output''],
       rows = [[Str ''hi'', Str ''HI''], [Str '''', NaN], [Str ''go'', Str ''GO'']]\<rparr>"
  let ?calls = "[(0 :: nat, ''UpperCaseConverter''), (2, ''UpperCaseConverter'')]"
  note at_demo = rows_without_prompt_skipped [of demo_table "''prompt''" demo demo_ledger None
      ?res ?calls]
  have rect: "rectangular demo_table" by (simp add: rectangular_def demo_table_def)
  have col: "''prompt'' \<in> set (columns demo_table)" by (simp add: demo_table_def)
  from at_demo [THEN conjunct2, THEN conjunct2, THEN conjunct2, THEN conjunct2]
  have run: "process_excel demo demo_ledger (Some demo_table) ''prompt'' None =
      Some (Inr (?res, ?calls))"
    by (simp add: demo_table_def)
  from at_demo [THEN conjunct1, rule_format, OF conjI [OF rect conjI [OF col run]]]
  have len: "length (rows ?res) = length (rows (capped demo_table None))"
    and skip: "\<forall>i<length (rows (capped demo_table None)).
            skipped (cell_at (capped demo_table None) i ''prompt'') \<longrightarrow>
            (\<forall>c\<in>set (columns demo_table). cell_at ?res i c = cell_at (capped demo_table None) i c)
            \<and> (\<forall>c\<in>set (columns ?res). c \<notin> set (columns demo_table) \<longrightarrow>
                  cell_at ?res i c = NaN)"
    by blast+
  have i: "1 < length (rows (capped demo_table None))"
    and s: "skipped (cell_at (capped demo_table None) 1 ''prompt'')"
    by (simp_all add: capped_def demo_table_def cell_at_def skipped_demo)
  from skip [rule_format, OF i s]
  have "cell_at ?res 1 ''prompt'' = cell_at (capped demo_table None) 1 ''prompt''"
    and "cell_at ?res 1 ''UpperCaseConverter_output'' = NaN"
    by (simp_all add: demo_table_def)
  with len show ?thesis
    by (simp add: capped_def demo_table_def cell_at_def)
qed

section \<open>Conversions that raise\<close>

lemma written_cell_returns:
  "written_cell E c p \<noteq> None \<longleftrightarrow> await (convert_async E c p ''text'') \<noteq> None"
  by (simp add: written_cell_def split: option.splits sum.splits)

lemma written_cell_raised:
  "await (convert_async E c p ''text'') = Some (Inl e) \<Longrightarrow>
     written_cell E c p = Some (Str (''ERROR: '' @ message e))"
  by (simp add: written_cell_def)

lemma written_cell_result:
  "await (convert_async E c p ''text'') = Some (Inr r) \<Longrightarrow>
     written_cell E c p = Some (Str (output_text r))"
  by (simp add: written_cell_def)

lemma process_excel_returns:
  assumes "prompt_column \<in> set (columns df0)"
    and "\<forall>i<length (rows (capped df0 max_rows)).
           \<not> skipped (cell_at (capped df0 max_rows) i prompt_column) \<longrightarrow>
           (\<forall>(n, c)\<in>set (text_to_text_converters D).
              await (convert_async E c (str_of (cell_at (capped df0 max_rows) i prompt_column))
                ''text'') \<noteq> None)"
  shows "\<exists>res calls. process_excel E D (Some df0) prompt_column max_rows =
           Some (Inr (res, calls))"
proof -
  let ?df = "capped df0 max_rows"
  from assms(2) have "\<forall>i\<in>set [0..<length (rows ?df)].
      \<not> skipped (cell_at ?df i prompt_column) \<longrightarrow>
      (\<forall>(n, c)\<in>set (text_to_text_converters D).
         written_cell E c (str_of (cell_at ?df i prompt_column)) \<noteq> None)"
    using written_cell_returns [of E] by fastforce
  from process_rows_returns [OF this, of "(?df, [])"] obtain st'
    where "process_rows E (text_to_text_converters D) ?df prompt_column
        [0..<length (rows ?df)] (?df, []) = Some st'"
    by blast
  then show ?thesis
    by (cases st') (simp add: process_excel_rows [OF assms(1)])
qed

text \<open>
  Claim C6. Let the table be well formed and let every conversion of the run return, with
  a result or with an exception. Then the run returns, every plugin of the ledger is
  called on every row with a prompt, in the order of the rows and of the ledger, whether
  or not an earlier conversion has raised, and the cell of a row and a plugin in the
  result is fixed by the conversion of that plugin on that row alone: it holds the marker
  \<^verbatim>\<open>ERROR: \<close> followed by the message when the conversion raised, and the text of the
  result otherwise. The columns of the input that are not output columns of a plugin are
  as in the input.
\<close>

theorem conversion_error_marker:
  "rectangular df0 \<and> prompt_column \<in> set (columns df0)
   \<and> distinct (map fst (text_to_text_converters D))
   \<and> (\<forall>i<length (rows (capped df0 max_rows)).
         \<not> skipped (cell_at (capped df0 max_rows) i prompt_column) \<longrightarrow>
         (\<forall>(n, c)\<in>set (text_to_text_converters D).
            await (convert_async E c (str_of (cell_at (capped df0 max_rows) i prompt_column))
              ''text'') \<noteq> None)) \<longrightarrow>
   (\<exists>res calls.
      process_excel E D (Some df0) prompt_column max_rows = Some (Inr (res, calls))
      \<and> calls = concat (map (\<lambda>i. map (\<lambda>(n, c). (i, n)) (text_to_text_converters D))
                  (filter (\<lambda>i. \<not> skipped (cell_at (capped df0 max_rows) i prompt_column))
                     [0..<length (rows (capped df0 max_rows))]))
      \<and> (\<forall>i<length (rows (capped df0 max_rows)).
            \<not> skipped (cell_at (capped df0 max_rows) i prompt_column) \<longrightarrow>
            (\<forall>(n, c)\<in>set (text_to_text_converters D).
               (\<forall>e. await (convert_async E c
                         (str_of (cell_at (capped df0 max_rows) i prompt_column)) ''text'') =
                       Some (Inl e) \<longrightarrow>
                    cell_at res i (n @ ''_output'') = Str (''ERROR: '' @ message e))
               \<and> (\<forall>r. await (convert_async E c
                         (str_of (cell_at (capped df0 max_rows) i prompt_column)) ''text'') =
                       Some (Inr r) \<longrightarrow>
                    cell_at res i (n @ ''_output'') = Str (output_text r))))
      \<and> (\<forall>i<length (rows (capped df0 max_rows)). \<forall>c\<in>set (columns df0).
            c \<notin> set (output_columns (text_to_text_converters D)) \<longrightarrow>
            cell_at res i c = cell_at (capped df0 max_rows) i c))"
proof (intro impI)
  let ?df = "capped df0 max_rows"
  let ?cs = "text_to_text_converters D"
  assume h: "rectangular df0 \<and> prompt_column \<in> set (columns df0)
   \<and> distinct (map fst ?cs)
   \<and> (\<forall>i<length (rows ?df).
         \<not> skipped (cell_at ?df i prompt_column) \<longrightarrow>
         (\<forall>(n, c)\<in>set ?cs.
            await (convert_async E c (str_of (cell_at ?df i prompt_column)) ''text'') \<noteq> None))"
  then have rect: "rectangular df0" and col: "prompt_column \<in> set (columns df0)"
    and dist: "distinct (map fst ?cs)"
    and ret: "\<forall>i<length (rows ?df).
         \<not> skipped (cell_at ?df i prompt_column) \<longrightarrow>
         (\<forall>(n, c)\<in>set ?cs.
            await (convert_async E c (str_of (cell_at ?df i prompt_column)) ''text'') \<noteq> None)"
    by blast+
  from process_excel_returns [OF col ret] obtain res calls
    where run: "process_excel E D (Some df0) prompt_column max_rows = Some (Inr (res, calls))"
    by blast
  with col have rows: "process_rows E ?cs ?df prompt_column [0..<length (rows ?df)]
      (?df, []) = Some (res, calls)"
    by (simp add: process_excel_rows)
  from rect have r: "rectangular ?df" by (rule rectangular_capped)
  have b: "\<forall>i\<in>set [0..<length (rows ?df)]. i < length (rows ?df)" by simp
  have d: "distinct [0..<length (rows ?df)]" by simp
  from process_rows_shape [OF rows r b]
  have 1: "calls = concat (map (\<lambda>i. map (\<lambda>(n, c). (i, n)) ?cs)
              (filter (\<lambda>i. \<not> skipped (cell_at ?df i prompt_column))
                 [0..<length (rows ?df)]))"
    by simp
  have w: "written_cell E c (str_of (cell_at ?df i prompt_column)) =
      Some (cell_at res i (n @ ''_output''))"
    if "i < length (rows ?df)" "\<not> skipped (cell_at ?df i prompt_column)" "(n, c) \<in> set ?cs"
    for i n c
  proof -
    from that(1) have "i \<in> set [0..<length (rows ?df)]" by simp
    from process_rows_written [OF rows r b d dist this that(2,3)] show ?thesis .
  qed
  have 2: "\<forall>i<length (rows ?df).
            \<not> skipped (cell_at ?df i prompt_column) \<longrightarrow>
            (\<forall>(n, c)\<in>set ?cs.
               (\<forall>e. await (convert_async E c (str_of (cell_at ?df i prompt_column)) ''text'') =
                       Some (Inl e) \<longrightarrow>
                    cell_at res i (n @ ''_output'') = Str (''ERROR: '' @ message e))
               \<and> (\<forall>r. await (convert_async E c (str_of (cell_at ?df i prompt_column)) ''text'') =
                       Some (Inr r) \<longrightarrow>
                    cell_at res i (n @ ''_output'') = Str (output_text r)))"
  proof (intro allI impI ballI)
    fix i x
    assume i: "i < length (rows ?df)" and s: "\<not> skipped (cell_at ?df i prompt_column)"
      and x: "x \<in> set ?cs"
    obtain n c where nc: "x = (n, c)" by (cases x)
    from w [OF i s x [unfolded nc]]
    have "written_cell E c (str_of (cell_at ?df i prompt_column)) =
        Some (cell_at res i (n @ ''_output''))" .
    then show "case x of (n, c) \<Rightarrow>
               (\<forall>e. await (convert_async E c (str_of (cell_at ?df i prompt_column)) ''text'') =
                       Some (Inl e) \<longrightarrow>
                    cell_at res i (n @ ''_output'') = Str (''ERROR: '' @ message e))
               \<and> (\<forall>r. await (convert_async E c (str_of (cell_at ?df i prompt_column)) ''text'') =
                       Some (Inr r) \<longrightarrow>
                    cell_at res i (n @ ''_output'') = Str (output_text r))"
      unfolding nc by (auto simp: written_cell_def)
  qed
  have 3: "\<forall>i<length (rows ?df). \<forall>c\<in>set (columns df0).
            c \<notin> set (output_columns ?cs) \<longrightarrow> cell_at res i c = cell_at ?df i c"
  proof (intro allI impI ballI)
    fix i c
    assume i: "i < length (rows ?df)" and c: "c \<in> set (columns df0)"
      and o: "c \<notin> set (output_columns ?cs)"
    from c have "c \<in> set (columns ?df)" by (simp add: columns_capped)
    moreover from o have "i \<notin> set [0..<length (rows ?df)]
        \<or> skipped (cell_at ?df i prompt_column) \<or> c \<notin> set (output_columns ?cs)"
      by simp
    ultimately show "cell_at res i c = cell_at ?df i c"
      using rows r b i by (auto intro: process_rows_frame)
  qed
  from run 1 2 3 show "\<exists>res calls.
      process_excel E D (Some df0) prompt_column max_rows = Some (Inr (res, calls))
      \<and> calls = concat (map (\<lambda>i. map (\<lambda>(n, c). (i, n)) ?cs)
                  (filter (\<lambda>i. \<not> skipped (cell_at ?df i prompt_column))
                     [0..<length (rows ?df)]))
      \<and> (\<forall>i<length (rows ?df).
            \<not> skipped (cell_at ?df i prompt_column) \<longrightarrow>
            (\<forall>(n, c)\<in>set ?cs.
               (\<forall>e. await (convert_async E c (str_of (cell_at ?df i prompt_column)) ''text'') =
                       Some (Inl e) \<longrightarrow>
                    cell_at res i (n @ ''_output'') = Str (''ERROR: '' @ message e))
               \<and> (\<forall>r. await (convert_async E c (str_of (cell_at ?df i prompt_column)) ''text'') =
                       Some (Inr r) \<longrightarrow>
                    cell_at res i (n @ ''_output'') = Str (output_text r))))
      \<and> (\<forall>i<length (rows ?df). \<forall>c\<in>set (columns df0).
            c \<notin> set (output_columns ?cs) \<longrightarrow> cell_at res i c = cell_at ?df i c)"
    by blast
qed

text \<open>
  The example table with the ledger of \<open>Upper\<close> and \<open>Fussy\<close>, whose conversion of the
  prompt \<^verbatim>\<open>go\<close> raises: the marker is in the cell of \<open>Fussy\<close> for the third row, the
  cell of \<open>Upper\<close> for that row and the cell of \<open>Fussy\<close> for the first row hold their
  results, and both plugins are called on both rows with a prompt.
\<close>

theorem conversion_error_marker_witness:
  "\<exists>res calls.
     process_excel demo fussy_ledger (Some demo_table) ''prompt'' None = Some (Inr (res, calls))
     \<and> calls = [(0, ''UpperCaseConverter''), (0, ''FussyConverter''),
                (2, ''UpperCaseConverter''), (2, ''FussyConverter'')]
     \<and> cell_at res 2 ''FussyConverter_output'' = Str ''ERROR: cannot convert go''
     \<and> cell_at res 2 ''UpperCaseConverter_output'' = Str ''GO''
     \<and> cell_at res 0 ''FussyConverter_output'' = Str ''HI''
     \<and> cell_at res 2 ''prompt'' = Str ''go''"
proof -
  let ?df = "capped demo_table None"
  have cap: "?df = demo_table" by (simp add: capped_def)
  have rect: "rectangular demo_table" by (simp add: rectangular_def demo_table_def)
  have col: "''prompt'' \<in> set (columns demo_table)" by (simp add: demo_table_def)
  have dist: "distinct (map fst (text_to_text_converters fussy_ledger))"
    by (simp add: fussy_ledger_converters)
  have ret: "\<forall>i<length (rows ?df). \<not> skipped (cell_at ?df i ''prompt'') \<longrightarrow>
      (\<forall>(n, c)\<in>set (text_to_text_converters fussy_ledger).
         await (convert_async demo c (str_of (cell_at ?df i ''prompt'')) ''text'') \<noteq> None)"
    by (simp add: fussy_ledger_converters await_def demo_def demo_convert_def)
  from conversion_error_marker [of demo_table "''prompt''" fussy_ledger None demo,
      rule_format, OF conjI [OF rect conjI [OF col conjI [OF dist ret]]]]
  obtain res calls
    where run: "process_excel demo fussy_ledger (Some demo_table) ''prompt'' None =
        Some (Inr (res, calls))"
      and calls: "calls = concat (map (\<lambda>i. map (\<lambda>(n, c). (i, n))
                  (text_to_text_converters fussy_ledger))
                  (filter (\<lambda>i. \<not> skipped (cell_at ?df i ''prompt''))
                     [0..<length (rows ?df)]))"
      and cells: "\<forall>i<length (rows ?df). \<not> skipped (cell_at ?df i ''prompt'') \<longrightarrow>
            (\<forall>(n, c)\<in>set (text_to_text_converters fussy_ledger).
               (\<forall>e. await (convert_async demo c (str_of (cell_at ?df i ''prompt'')) ''text'') =
                       Some (Inl e) \<longrightarrow>
                    cell_at res i (n @ ''_output'') = Str (''ERROR: '' @ message e))
               \<and> (\<forall>r. await (convert_async demo c (str_of (cell_at ?df i ''prompt'')) ''text'') =
                       Some (Inr r) \<longrightarrow>
                    cell_at res i (n @ ''_output'') = Str (output_text r)))"
      and frame: "\<forall>i<length (rows ?df). \<forall>c\<in>set (columns demo_table).
            c \<notin> set (output_columns (text_to_text_converters fussy_ledger)) \<longrightarrow>
            cell_at res i c = cell_at ?df i c"
    by blast
  have rows: "[0..<length (rows demo_table)] = [0, 1, 2]"
    by (simp add: demo_table_def upt_rec)
  have prompts: "cell_at demo_table 0 ''prompt'' = Str ''hi''"
    "cell_at demo_table (Suc 0) ''prompt'' = Str ''''"
    "cell_at demo_table 2 ''prompt'' = Str ''go''"
    by (simp_all add: demo_table_def cell_at_def)
  have 1: "calls = [(0, ''UpperCaseConverter''), (0, ''FussyConverter''),
                (2, ''UpperCaseConverter''), (2, ''FussyConverter'')]"
    unfolding calls
    by (simp add: cap rows prompts skipped_demo fussy_ledger_converters)
  have len: "0 < length (rows ?df)" "2 < length (rows ?df)"
    by (simp_all add: capped_def demo_table_def)
  have ns: "\<not> skipped (cell_at ?df 0 ''prompt'')" "\<not> skipped (cell_at ?df 2 ''prompt'')"
    by (simp_all add: cap prompts skipped_demo)
  have mem: "(''FussyConverter'', ''fussy'') \<in> set (text_to_text_converters fussy_ledger)"
    "(''UpperCaseConverter'', ''upper'') \<in> set (text_to_text_converters fussy_ledger)"
    by (simp_all add: fussy_ledger_converters)
  have fussy_go: "await (convert_async demo ''fussy'' (str_of (cell_at ?df 2 ''prompt''))
      ''text'') =
      Some (Inl \<lparr>exc_class = ValueError, type_name = ''ValueError'',
                 message = ''cannot convert go''\<rparr>)"
    by (simp add: cap prompts str_of_def await_def demo_def demo_convert_def)
  have upper_go: "await (convert_async demo ''upper'' (str_of (cell_at ?df 2 ''prompt''))
      ''text'') = Some (Inr \<lparr>output_text = ''GO'', output_type = ''text''\<rparr>)"
    by (simp add: cap prompts str_of_def await_def demo_def demo_convert_def upper_hi)
  have fussy_hi: "await (convert_async demo ''fussy'' (str_of (cell_at ?df 0 ''prompt''))
      ''text'') = Some (Inr \<lparr>output_text = ''HI'', output_type = ''text''\<rparr>)"
    by (simp add: cap prompts str_of_def await_def demo_def demo_convert_def upper_hi)
  from cells [rule_format, OF len(2) ns(2) mem(1)] fussy_go
  have 2: "cell_at res 2 ''FussyConverter_output'' = Str ''ERROR: cannot convert go''"
    by simp
  from cells [rule_format, OF len(2) ns(2) mem(2)] upper_go
  have 3: "cell_at res 2 ''UpperCaseConverter_output'' = Str ''GO''"
    by simp
  from cells [rule_format, OF len(1) ns(1) mem(1)] fussy_hi
  have 4: "cell_at res 0 ''FussyConverter_output'' = Str ''HI''"
    by simp
  from frame [rule_format, OF len(2), of "''prompt''"]
  have 5: "cell_at res 2 ''prompt'' = Str ''go''"
    by (simp add: fussy_ledger_converters output_columns_def cap prompts col)
  from run 1 2 3 4 5 show ?thesis by blast
qed

section \<open>The enriched table\<close>

lemma col_index_nth:
  "distinct cs \<Longrightarrow> j < length cs \<Longrightarrow> col_index (cs ! j) cs = j"
proof (induction cs arbitrary: j)
  case Nil
  then show ?case by simp
next
  case (Cons c cs)
  then show ?case by (cases j) auto
qed

lemma original_rows_kept:
  assumes "rectangular df" and "rectangular res"
    and "columns res = columns df @ extra"
    and "length (rows res) = length (rows df)"
    and "\<forall>i<length (rows df). \<forall>c\<in>set (columns df). cell_at res i c = cell_at df i c"
  shows "map (take (length (columns df))) (rows res) = rows df"
proof (rule nth_equalityI)
  show "length (map (take (length (columns df))) (rows res)) = length (rows df)"
    using assms(4) by simp
next
  fix i
  assume "i < length (map (take (length (columns df))) (rows res))"
  with assms(4) have i: "i < length (rows df)" and i': "i < length (rows res)" by simp_all
  from assms(1) i have len: "length (rows df ! i) = length (columns df)"
    by (auto simp: rectangular_def list_all_iff)
  from assms(2,3) i' have len': "length (rows res ! i) = length (columns df) + length extra"
    by (auto simp: rectangular_def list_all_iff)
  from assms(1) have d: "distinct (columns df)" by (simp add: rectangular_def)
  have "take (length (columns df)) (rows res ! i) = rows df ! i"
  proof (rule nth_equalityI)
    show "length (take (length (columns df)) (rows res ! i)) = length (rows df ! i)"
      using len len' by simp
  next
    fix j
    assume "j < length (take (length (columns df)) (rows res ! i))"
    with len' have j: "j < length (columns df)" by simp
    then have mem: "columns df ! j \<in> set (columns df)" by simp
    from d j have ci: "col_index (columns df ! j) (columns df) = j" by (rule col_index_nth)
    from mem ci have ci': "col_index (columns df ! j) (columns res) = j"
      by (simp add: assms(3) col_index_append)
    from assms(5) i mem
    have "cell_at res i (columns df ! j) = cell_at df i (columns df ! j)" by blast
    with ci ci' j show "take (length (columns df)) (rows res ! i) ! j = rows df ! i ! j"
      by (simp add: cell_at_def)
  qed
  with i' show "map (take (length (columns df))) (rows res) ! i = rows df ! i" by simp
qed

text \<open>
  Claim C5, as the code has it. Let the table be well formed and have at least one row,
  let every row have a prompt, let the names of the plugins be distinct, let no output
  column of a plugin be a column of the input already, and let every conversion of the
  run return a result. Then the run returns, and the table it hands to the writer has the
  rows of the input, as many and in their order, with every original column as it was,
  followed by one column named \<^verbatim>\<open><name>_output\<close> for each plugin of the ledger, in
  the order of the ledger, which holds the text of the results.
\<close>

theorem enriched_table_frame:
  "rectangular df0 \<and> prompt_column \<in> set (columns df0)
   \<and> 0 < length (rows (capped df0 max_rows))
   \<and> (\<forall>i<length (rows (capped df0 max_rows)).
         \<not> skipped (cell_at (capped df0 max_rows) i prompt_column))
   \<and> distinct (map fst (text_to_text_converters D))
   \<and> (\<forall>c\<in>set (output_columns (text_to_text_converters D)). c \<notin> set (columns df0))
   \<and> (\<forall>i<length (rows (capped df0 max_rows)). \<forall>(n, c)\<in>set (text_to_text_converters D).
         \<exists>r. await (convert_async E c
                (str_of (cell_at (capped df0 max_rows) i prompt_column)) ''text'') =
              Some (Inr r)) \<longrightarrow>
   (\<exists>res calls.
      process_excel E D (Some df0) prompt_column max_rows = Some (Inr (res, calls))
      \<and> length (rows res) = length (rows (capped df0 max_rows))
      \<and> columns res = columns df0 @ output_columns (text_to_text_converters D)
      \<and> length (output_columns (text_to_text_converters D)) =
          length (text_to_text_converters D)
      \<and> map (take (length (columns df0))) (rows res) = rows (capped df0 max_rows)
      \<and> (\<forall>i<length (rows (capped df0 max_rows)). \<forall>c\<in>set (columns df0).
            cell_at res i c = cell_at (capped df0 max_rows) i c)
      \<and> (\<forall>i<length (rows (capped df0 max_rows)). \<forall>(n, c)\<in>set (text_to_text_converters D).
            \<forall>r. await (convert_async E c
                   (str_of (cell_at (capped df0 max_rows) i prompt_column)) ''text'') =
                 Some (Inr r) \<longrightarrow>
               cell_at res i (n @ ''_output'') = Str (output_text r)))"
proof (intro impI)
  let ?df = "capped df0 max_rows"
  let ?cs = "text_to_text_converters D"
  assume h: "rectangular df0 \<and> prompt_column \<in> set (columns df0)
   \<and> 0 < length (rows ?df)
   \<and> (\<forall>i<length (rows ?df). \<not> skipped (cell_at ?df i prompt_column))
   \<and> distinct (map fst ?cs)
   \<and> (\<forall>c\<in>set (output_columns ?cs). c \<notin> set (columns df0))
   \<and> (\<forall>i<length (rows ?df). \<forall>(n, c)\<in>set ?cs.
         \<exists>r. await (convert_async E c (str_of (cell_at ?df i prompt_column)) ''text'') =
              Some (Inr r))"
  then have rect: "rectangular df0" and col: "prompt_column \<in> set (columns df0)"
    and some: "0 < length (rows ?df)"
    and full: "\<forall>i<length (rows ?df). \<not> skipped (cell_at ?df i prompt_column)"
    and dist: "distinct (map fst ?cs)"
    and fresh: "\<forall>c\<in>set (output_columns ?cs). c \<notin> set (columns df0)"
    and ok: "\<forall>i<length (rows ?df). \<forall>(n, c)\<in>set ?cs.
         \<exists>r. await (convert_async E c (str_of (cell_at ?df i prompt_column)) ''text'') =
              Some (Inr r)"
    by blast+
  from ok have ret: "\<forall>i<length (rows ?df).
         \<not> skipped (cell_at ?df i prompt_column) \<longrightarrow>
         (\<forall>(n, c)\<in>set ?cs.
            await (convert_async E c (str_of (cell_at ?df i prompt_column)) ''text'') \<noteq> None)"
    by fastforce
  from process_excel_returns [OF col ret] obtain res calls
    where run: "process_excel E D (Some df0) prompt_column max_rows = Some (Inr (res, calls))"
    by blast
  with col have rows: "process_rows E ?cs ?df prompt_column [0..<length (rows ?df)]
      (?df, []) = Some (res, calls)"
    by (simp add: process_excel_rows)
  from rect have r: "rectangular ?df" by (rule rectangular_capped)
  have b: "\<forall>i\<in>set [0..<length (rows ?df)]. i < length (rows ?df)" by simp
  have d: "distinct [0..<length (rows ?df)]" by simp
  from process_rows_shape [OF rows r b]
  have r': "rectangular res" and 1: "length (rows res) = length (rows ?df)"
    by simp_all
  from some full have ex: "\<exists>i\<in>set [0..<length (rows ?df)].
      \<not> skipped (cell_at ?df i prompt_column)"
    by auto
  from fresh have all: "filter (\<lambda>c. c \<notin> set (columns ?df)) (output_columns ?cs) =
      output_columns ?cs"
    by (simp add: columns_capped)
  from process_rows_columns [OF rows dist] ex all
  have 2: "columns res = columns df0 @ output_columns ?cs"
    by (simp add: columns_capped)
  have 3: "length (output_columns ?cs) = length ?cs"
    by (simp add: output_columns_def)
  have 5: "\<forall>i<length (rows ?df). \<forall>c\<in>set (columns df0). cell_at res i c = cell_at ?df i c"
  proof (intro allI impI ballI)
    fix i c
    assume i: "i < length (rows ?df)" and c: "c \<in> set (columns df0)"
    from c have m: "c \<in> set (columns ?df)" by (simp add: columns_capped)
    from c fresh have "i \<notin> set [0..<length (rows ?df)]
        \<or> skipped (cell_at ?df i prompt_column) \<or> c \<notin> set (output_columns ?cs)"
      by auto
    with rows r b i m show "cell_at res i c = cell_at ?df i c"
      by (auto intro: process_rows_frame)
  qed
  from 2 have cols2: "columns res = columns ?df @ output_columns ?cs"
    by (simp add: columns_capped)
  from 5 have kept5: "\<forall>i<length (rows ?df). \<forall>c\<in>set (columns ?df).
      cell_at res i c = cell_at ?df i c"
    by (simp add: columns_capped)
  from original_rows_kept [OF r r' cols2 1 kept5]
  have 4: "map (take (length (columns df0))) (rows res) = rows ?df"
    by (simp add: columns_capped)
  have 6: "\<forall>i<length (rows ?df). \<forall>(n, c)\<in>set ?cs.
            \<forall>r. await (convert_async E c (str_of (cell_at ?df i prompt_column)) ''text'') =
                 Some (Inr r) \<longrightarrow>
               cell_at res i (n @ ''_output'') = Str (output_text r)"
  proof (intro allI impI ballI)
    fix i x
    assume i: "i < length (rows ?df)" and x: "x \<in> set ?cs"
    obtain n c where nc: "x = (n, c)" by (cases x)
    from i have mem: "i \<in> set [0..<length (rows ?df)]" by simp
    from full i have ns: "\<not> skipped (cell_at ?df i prompt_column)" by simp
    from process_rows_written [OF rows r b d dist mem ns x [unfolded nc]]
    have "written_cell E c (str_of (cell_at ?df i prompt_column)) =
        Some (cell_at res i (n @ ''_output''))" .
    then show "case x of (n, c) \<Rightarrow>
            \<forall>r. await (convert_async E c (str_of (cell_at ?df i prompt_column)) ''text'') =
                 Some (Inr r) \<longrightarrow>
               cell_at res i (n @ ''_output'') = Str (output_text r)"
      unfolding nc by (auto simp: written_cell_def)
  qed
  from run 1 2 3 4 5 6 show "\<exists>res calls.
      process_excel E D (Some df0) prompt_column max_rows = Some (Inr (res, calls))
      \<and> length (rows res) = length (rows ?df)
      \<and> columns res = columns df0 @ output_columns ?cs
      \<and> length (output_columns ?cs) = length ?cs
      \<and> map (take (length (columns df0))) (rows res) = rows ?df
      \<and> (\<forall>i<length (rows ?df). \<forall>c\<in>set (columns df0). cell_at res i c = cell_at ?df i c)
      \<and> (\<forall>i<length (rows ?df). \<forall>(n, c)\<in>set ?cs.
            \<forall>r. await (convert_async E c (str_of (cell_at ?df i prompt_column)) ''text'') =
                 Some (Inr r) \<longrightarrow>
               cell_at res i (n @ ''_output'') = Str (output_text r))"
    by blast
qed

text \<open>
  The claim as the specification states it fails for a table that has a column with the
  name of an output column already, as the result of an earlier run has: the run writes
  to that column and adds none. It fails also for a table with no rows, to which no
  column is added.
\<close>

theorem output_column_overwritten_counterexample:
  "text_to_text_converters demo_ledger = [(''UpperCaseConverter'', ''upper'')]
   \<and> process_excel demo demo_ledger
       (Some \<lparr>columns = [''prompt'', ''UpperCaseConverter_output''],
              rows = [[Str ''hi'', Str ''keep'']]\<rparr>) ''prompt'' None =
     Some (Inr (\<lparr>columns = [''prompt'', ''UpperCaseConverter_output''],
                 rows = [[Str ''hi'', Str ''HI'']]\<rparr>,
                [(0, ''UpperCaseConverter'')]))
   \<and> process_excel demo demo_ledger
       (Some \<lparr>columns = [''prompt''], rows = []\<rparr>) ''prompt'' None =
     Some (Inr (\<lparr>columns = [''prompt''], rows = []\<rparr>, []))"
  by (simp add: demo_ledger_converters process_excel_def capped_def upt_rec cell_at_def
      skipped_demo str_of_def run_converters_step written_upper upper_hi loc_set_def Let_def
      del: run_converters.simps(2))

text \<open>
  A table of two prompts and the ledger of \<open>Upper\<close>: the result has the two rows and the
  prompt column as they were, and one more column.
\<close>

theorem enriched_table_frame_witness:
  "\<exists>res calls.
     process_excel demo demo_ledger
       (Some \<lparr>columns = [''prompt''], rows = [[Str ''hi''], [Str ''go'']]\<rparr>) ''prompt'' None =
       Some (Inr (res, calls))
     \<and> length (rows res) = 2
     \<and> columns res = [''prompt'', ''UpperCaseConverter_output'']
     \<and> map (take 1) (rows res) = [[Str ''hi''], [Str ''go'']]
     \<and> cell_at res 1 ''UpperCaseConverter_output'' = Str ''GO''"
proof -
  let ?t = "\<lparr>columns = [''prompt''], rows = [[Str ''hi''], [Str ''go'']]\<rparr>"
  let ?df = "capped ?t None"
  have cap: "?df = ?t" by (simp add: capped_def)
  have rect: "rectangular ?t" by (simp add: rectangular_def)
  have col: "''prompt'' \<in> set (columns ?t)" by simp
  have some: "0 < length (rows ?df)" by (simp add: capped_def)
  have prompts: "cell_at ?t 0 ''prompt'' = Str ''hi''" "cell_at ?t (Suc 0) ''prompt'' = Str ''go''"
    by (simp_all add: cell_at_def)
  have lt: "i < length (rows ?df) \<longleftrightarrow> i = 0 \<or> i = Suc 0" for i
    by (auto simp: capped_def)
  have full: "\<forall>i<length (rows ?df). \<not> skipped (cell_at ?df i ''prompt'')"
    unfolding lt by (auto simp: cap prompts skipped_demo)
  have dist: "distinct (map fst (text_to_text_converters demo_ledger))"
    by (simp add: demo_ledger_converters)
  have fresh: "\<forall>c\<in>set (output_columns (text_to_text_converters demo_ledger)).
      c \<notin> set (columns ?t)"
    by (simp add: demo_ledger_converters output_columns_def)
  have ok: "\<forall>i<length (rows ?df). \<forall>(n, c)\<in>set (text_to_text_converters demo_ledger).
      \<exists>r. await (convert_async demo c (str_of (cell_at ?df i ''prompt'')) ''text'') =
           Some (Inr r)"
    by (simp add: demo_ledger_converters await_def demo_def demo_convert_def)
  from enriched_table_frame [of ?t "''prompt''" None demo_ledger demo, rule_format,
      OF conjI [OF rect conjI [OF col conjI [OF some conjI [OF full conjI [OF dist
        conjI [OF fresh ok]]]]]]]
  obtain res calls
    where run: "process_excel demo demo_ledger (Some ?t) ''prompt'' None =
        Some (Inr (res, calls))"
      and len: "length (rows res) = length (rows ?df)"
      and cols: "columns res = columns ?t @ output_columns (text_to_text_converters demo_ledger)"
      and kept: "map (take (length (columns ?t))) (rows res) = rows ?df"
      and cells: "\<forall>i<length (rows ?df). \<forall>(n, c)\<in>set (text_to_text_converters demo_ledger).
            \<forall>r. await (convert_async demo c (str_of (cell_at ?df i ''prompt'')) ''text'') =
                 Some (Inr r) \<longrightarrow>
               cell_at res i (n @ ''_output'') = Str (output_text r)"
    by blast
  from len have 1: "length (rows res) = 2" by (simp add: capped_def)
  from cols have 2: "columns res = [''prompt'', ''UpperCaseConverter_output'']"
    by (simp add: demo_ledger_converters output_columns_def)
  from kept have 3: "map (take 1) (rows res) = [[Str ''hi''], [Str ''go'']]"
    by (simp add: capped_def)
  have one: "Suc 0 < length (rows ?df)" by (simp add: capped_def)
  have mem: "(''UpperCaseConverter'', ''upper'') \<in> set (text_to_text_converters demo_ledger)"
    by (simp add: demo_ledger_converters)
  have go: "await (convert_async demo ''upper'' (str_of (cell_at ?df (Suc 0) ''prompt''))
      ''text'') = Some (Inr \<lparr>output_text = ''GO'', output_type = ''text''\<rparr>)"
    by (simp add: cap prompts str_of_def await_def demo_def demo_convert_def upper_hi)
  from cells [rule_format, OF one mem] go
  have 4: "cell_at res 1 ''UpperCaseConverter_output'' = Str ''GO''"
    by simp
  from run 1 2 3 4 show ?thesis
    by (intro exI [of _ res] exI [of _ calls] conjI)
qed

end
